(* ===== verification/Prelude.thy ===== *)
theory Prelude
  imports "HOL-Library.Word" "HOL-Library.Sublist"
begin

text \<open>
  Shared vocabulary of the development: the machine integer types of the C++ code, the fact
  collections the component theories fill, and generic lemmas on lists and words.

  \<^item> \<open>nerf_defs\<close> collects the defining equations of small helpers that proofs always unfold;
  \<^item> \<open>frame_simps\<close> collects frame facts (a field an operation leaves alone);
  \<^item> \<open>two_phase\<close> is the shape of a first-in first-out channel of a stop-and-wait link: a block of
    old messages followed by a block of current ones.
\<close>

type_synonym u8 = "8 word"
type_synonym u16 = "16 word"
type_synonym u32 = "32 word"
type_synonym u64 = "64 word"

text \<open>A \<open>std::vector<uint8_t>\<close>: an RF packet, a fragment or an IP packet.\<close>

type_synonym bytes = "u8 list"

named_theorems nerf_defs "definitions of small helpers, unfolded by every proof"
named_theorems frame_simps "fields an operation does not change"

section \<open>Bytes\<close>

lemma unat_u8_less: "unat (b :: u8) < 256"
  using unsigned_less [of b] by simp

lemma unat_of_nat_u8 [simp]: "n < 256 \<Longrightarrow> unat (of_nat n :: u8) = n"
  by (simp add: unat_of_nat take_bit_eq_mod)

lemma u8_eq_unat: "(a :: u8) = b \<longleftrightarrow> unat a = unat b"
  by (simp add: word_unat_eq_iff)

lemma u8_less_unat: "(a :: u8) < b \<longleftrightarrow> unat a < unat b"
  by (simp add: word_less_nat_alt)

lemma u8_le_unat: "(a :: u8) \<le> b \<longleftrightarrow> unat a \<le> unat b"
  by (simp add: word_le_nat_alt)

lemma unat_u8_Suc: "unat (a :: u8) < 255 \<Longrightarrow> unat (a + 1) = Suc (unat a)"
  by (simp add: unat_word_ariths)

section \<open>Two-phase lists\<close>

fun two_phase :: "('a \<Rightarrow> bool) \<Rightarrow> ('a \<Rightarrow> bool) \<Rightarrow> 'a list \<Rightarrow> bool" where
  "two_phase P Q [] = True"
| "two_phase P Q (x # xs) = ((P x \<and> two_phase P Q xs) \<or> (\<forall>y \<in> set (x # xs). Q y))"

lemma two_phase_allQ: "\<forall>y \<in> set xs. Q y \<Longrightarrow> two_phase P Q xs"
  by (cases xs) auto

lemma two_phase_allP: "\<forall>y \<in> set xs. P y \<Longrightarrow> two_phase P Q xs"
  by (induction xs) auto

lemma two_phase_tl: "two_phase P Q (x # xs) \<Longrightarrow> two_phase P Q xs"
  by (auto intro: two_phase_allQ)

lemma two_phase_snocQ: "two_phase P Q xs \<Longrightarrow> Q x \<Longrightarrow> two_phase P Q (xs @ [x])"
  by (induction xs) auto

lemma two_phase_either: "two_phase P Q xs \<Longrightarrow> x \<in> set xs \<Longrightarrow> P x \<or> Q x"
  by (induction xs) auto

lemma two_phase_mono:
  assumes "two_phase P Q xs"
    and "\<And>x. x \<in> set xs \<Longrightarrow> P x \<Longrightarrow> P' x" and "\<And>x. x \<in> set xs \<Longrightarrow> Q x \<Longrightarrow> Q' x"
  shows "two_phase P' Q' xs"
  using assms by (induction xs) auto

lemma two_phase_drop_mid: "two_phase P Q (xs @ ms @ ys) \<Longrightarrow> two_phase P Q (xs @ ys)"
proof (induction xs)
  case Nil
  then show ?case by (induction ms) (auto intro: two_phase_allQ)
next
  case (Cons x xs)
  then show ?case by auto
qed

lemma two_phase_dup_mid: "two_phase P Q (xs @ m # ys) \<Longrightarrow> two_phase P Q (xs @ m # m # ys)"
  by (induction xs) auto

text \<open>Once one current message is at the head, no old one follows.\<close>

lemma two_phase_headQ:
  "two_phase P Q (x # xs) \<Longrightarrow> \<not> P x \<Longrightarrow> \<forall>y \<in> set (x # xs). Q y"
  by auto

section \<open>Lists\<close>

lemma concat_map_mid: "concat (map f (xs @ x # ys)) = concat (map f xs) @ f x @ concat (map f ys)"
  by simp

lemma take_min_length: "take (min (length xs) n) xs = take n xs"
  by (simp add: min_def)

lemma prefix_same_take: "prefix xs ys \<Longrightarrow> n \<le> length xs \<Longrightarrow> take n ys = take n xs"
  by (auto simp: prefix_def)

lemma prefix_nth_eq: "prefix xs ys \<Longrightarrow> i < length xs \<Longrightarrow> ys ! i = xs ! i"
  by (auto simp: prefix_def nth_append)

end
