(* ===== verification/Mac_Frame.thy ===== *)
theory Mac_Frame
  imports Prelude
begin

text \<open>
  The MAC frame of \<open>radio_interface.h\<close> and its codec, \<open>EncodeMacFrame\<close> and \<open>DecodeMacFrame\<close> of
  \<open>radio_interface.cc\<close>.

  A packet on the air is always 32 bytes: type, sequence number, cumulative acknowledgement, pending
  hint, argument, then up to 27 payload bytes. \<open>FrameType\<close> is an enum over \<open>uint8_t\<close> that
  \<open>DecodeMacFrame\<close> fills with an unchecked \<open>static_cast\<close>, so a decoded value need not be one of its
  six enumerators; the constructor \<open>Unknown\<close> carries such a byte.

  \<open>std::vector\<close> out-parameters become results: a codec that returns \<open>false\<close> is \<open>None\<close> here, and
  every caller of the code drops the out-parameter in that case.
\<close>

section \<open>Constants of the class RadioInterface\<close>

definition kMaxPacketSize :: nat where "kMaxPacketSize = 32"
definition kHeaderSize :: nat where "kHeaderSize = 5"
definition kMaxPayloadSize :: nat where "kMaxPayloadSize = kMaxPacketSize - kHeaderSize"
definition kNoSeq :: u8 where "kNoSeq = 0"
definition kMaxSeq :: u8 where "kMaxSeq = 31"

lemma kMaxPayloadSize_eq: "kMaxPayloadSize = 27"
  by (simp add: kMaxPayloadSize_def kMaxPacketSize_def kHeaderSize_def)

lemmas const_defs [simp] =
  kMaxPacketSize_def kHeaderSize_def kMaxPayloadSize_eq kMaxSeq_def

declare kNoSeq_def [nerf_defs]

section \<open>Frames\<close>

datatype FrameType = Invalid | Pending | Grant | Data | Ack | Reset | Unknown u8

text \<open>The two \<open>static_cast\<close>s between \<open>FrameType\<close> and its underlying byte.\<close>

fun byte_of_type :: "FrameType \<Rightarrow> u8" where
  "byte_of_type Invalid = 0"
| "byte_of_type Pending = 1"
| "byte_of_type Grant = 2"
| "byte_of_type Data = 3"
| "byte_of_type Ack = 4"
| "byte_of_type Reset = 5"
| "byte_of_type (Unknown b) = b"

definition type_of_byte :: "u8 \<Rightarrow> FrameType" where
  "type_of_byte b =
     (if b = 0 then Invalid else if b = 1 then Pending else if b = 2 then Grant
      else if b = 3 then Data else if b = 4 then Ack else if b = 5 then Reset
      else Unknown b)"

text \<open>A type value the code can hold: \<open>Unknown\<close> stands only for bytes without an enumerator.\<close>

fun type_wf :: "FrameType \<Rightarrow> bool" where
  "type_wf (Unknown b) = (5 < b)"
| "type_wf _ = True"

lemma type_of_byte_wf [simp]: "type_wf (type_of_byte b)"
  by (auto simp: type_of_byte_def word_less_nat_alt u8_eq_unat)

lemma byte_of_type_of_byte [simp]: "byte_of_type (type_of_byte b) = b"
  by (simp add: type_of_byte_def)

lemma type_of_byte_of_type [simp]: "type_wf t \<Longrightarrow> type_of_byte (byte_of_type t) = t"
  by (cases t) (auto simp: type_of_byte_def)

record MacFrame =
  ftype :: FrameType
  seq :: u8
  ack :: u8
  pending :: u8
  arg :: u8
  payload :: bytes

text \<open>The value-initialised frame \<open>MacFrame{}\<close> with the default member initialisers.\<close>

definition empty_frame :: MacFrame where
  "empty_frame = \<lparr>ftype = Invalid, seq = 0, ack = 0, pending = 0, arg = 0, payload = []\<rparr>"

section \<open>Codec\<close>

text \<open>The copy loop of \<open>EncodeMacFrame\<close>: \<open>packet[kHeaderSize + i] = payload[i]\<close>.\<close>

fun copy_at :: "bytes \<Rightarrow> nat \<Rightarrow> bytes \<Rightarrow> bytes" where
  "copy_at packet at [] = packet"
| "copy_at packet at (b # bs) = copy_at (packet[at := b]) (Suc at) bs"

definition EncodeMacFrame :: "MacFrame \<Rightarrow> bytes option" where
  "EncodeMacFrame frame =
     (let packet = replicate kMaxPacketSize 0 in
      if length (payload frame) > kMaxPayloadSize then None
      else
        let packet = packet[0 := byte_of_type (ftype frame)];
            packet = packet[1 := seq frame];
            packet = packet[2 := ack frame];
            packet = packet[3 := pending frame];
            packet = packet[4 := arg frame]
        in Some (copy_at packet kHeaderSize (payload frame)))"

definition DecodeMacFrame :: "bytes \<Rightarrow> MacFrame option" where
  "DecodeMacFrame packet =
     (if length packet \<noteq> kMaxPacketSize then None
      else
        let frame = \<lparr>ftype = type_of_byte (packet ! 0), seq = packet ! 1, ack = packet ! 2,
                     pending = packet ! 3, arg = packet ! 4, payload = []\<rparr>
        in if ftype frame = Data \<and> arg frame > 0
           then (let payload_size = unat (min (arg frame) (of_nat kMaxPayloadSize))
                 in Some (frame\<lparr>payload := take payload_size (drop kHeaderSize packet)\<rparr>))
           else Some frame)"

lemma copy_at_length [simp]: "length (copy_at p k bs) = length p"
  by (induction p k bs rule: copy_at.induct) auto

lemma copy_at_eq:
  "k + length bs \<le> length p \<Longrightarrow> copy_at p k bs = take k p @ bs @ drop (k + length bs) p"
proof (induction p k bs rule: copy_at.induct)
  case (1 packet at)
  then show ?case by simp
next
  case (2 packet at b bs)
  then have "copy_at packet at (b # bs)
      = take (Suc at) (packet[at := b]) @ bs @ drop (Suc at + length bs) (packet[at := b])"
    by simp
  also have "take (Suc at) (packet[at := b]) = take at packet @ [b]"
    using "2.prems" by (simp add: take_Suc_conv_app_nth)
  finally show ?case by simp
qed

text \<open>The packet \<open>EncodeMacFrame\<close> produces, as one list: header, payload, zero padding.\<close>

lemma EncodeMacFrame_eq:
  "EncodeMacFrame f =
     (if length (payload f) > 27 then None
      else Some ([byte_of_type (ftype f), seq f, ack f, pending f, arg f] @ payload f
                 @ replicate (27 - length (payload f)) 0))"
proof -
  have header: "(replicate 32 (0::u8))[0 := a, 1 := b, 2 := c, 3 := d, 4 := e]
      = [a, b, c, d, e] @ replicate 27 0" for a b c d e
    by (simp add: numeral_eq_Suc)
  have "copy_at ([a, b, c, d, e] @ replicate 27 0) 5 (payload f)
      = [a, b, c, d, e] @ payload f @ replicate (27 - length (payload f)) 0"
    if "length (payload f) \<le> 27" for a b c d e
    using that by (simp add: copy_at_eq drop_Cons')
  then show ?thesis
    by (simp add: EncodeMacFrame_def Let_def header del: One_nat_def list_update.simps)
qed

text \<open>
  A frame whose payload the receiver can recover from the header: a DATA frame carries exactly
  \<open>min arg 27\<close> bytes, any other frame none.
\<close>

definition frame_wf :: "MacFrame \<Rightarrow> bool" where
  "frame_wf f \<longleftrightarrow> type_wf (ftype f) \<and>
     length (payload f) = (if ftype f = Data then min (unat (arg f)) 27 else 0)"

lemma unat_min_27: "unat (min (a :: u8) 27) = min (unat a) 27"
  by (simp add: min_def word_le_nat_alt)

lemma DecodeMacFrame_eq:
  "DecodeMacFrame p =
     (if length p \<noteq> 32 then None
      else Some \<lparr>ftype = type_of_byte (p ! 0), seq = p ! 1, ack = p ! 2, pending = p ! 3,
                 arg = p ! 4,
                 payload = (if type_of_byte (p ! 0) = Data
                            then take (min (unat (p ! 4)) 27) (drop 5 p) else [])\<rparr>)"
  by (auto simp: DecodeMacFrame_def Let_def unat_min_27 word_less_nat_alt)

lemma encode_decode_wf:
  assumes "frame_wf f"
  shows "\<exists>p. EncodeMacFrame f = Some p \<and> DecodeMacFrame p = Some f"
proof -
  from assms have len: "length (payload f) \<le> 27" and wf: "type_wf (ftype f)"
    by (auto simp: frame_wf_def split: if_splits)
  let ?p = "[byte_of_type (ftype f), seq f, ack f, pending f, arg f] @ payload f
            @ replicate (27 - length (payload f)) 0"
  have "EncodeMacFrame f = Some ?p"
    using len by (simp add: EncodeMacFrame_eq)
  moreover have "DecodeMacFrame ?p = Some f"
    using assms len wf
    by (cases f) (auto simp: DecodeMacFrame_eq frame_wf_def numeral_eq_Suc split: if_splits)
  ultimately show ?thesis by blast
qed

lemma EncodeMacFrame_length: "EncodeMacFrame f = Some p \<Longrightarrow> length p = 32"
  by (auto simp: EncodeMacFrame_eq split: if_splits)

lemma control_frame_wf:
  "type_wf (ftype f) \<Longrightarrow> ftype f \<noteq> Data \<Longrightarrow> payload f = [] \<Longrightarrow> frame_wf f"
  by (simp add: frame_wf_def)

section \<open>Properties\<close>

text \<open>C10. A frame whose payload the header announces is encoded into 32 bytes that
  decode to it; every packet that decodes gives such a frame, so encoding what was received and
  decoding again changes nothing.\<close>

theorem codec_round_trip:
  "(frame_wf f \<longrightarrow> (\<exists>p. EncodeMacFrame f = Some p \<and> length p = 32 \<and> DecodeMacFrame p = Some f)) \<and>
   (DecodeMacFrame q = Some f \<longrightarrow>
      frame_wf f \<and> Option.bind (EncodeMacFrame f) DecodeMacFrame = Some f)"
proof -
  have "frame_wf f" if "DecodeMacFrame q = Some f"
    using that by (auto simp: DecodeMacFrame_eq frame_wf_def split: if_splits)
  then show ?thesis
    using encode_decode_wf [of f] EncodeMacFrame_length [of f] by fastforce
qed

theorem codec_round_trip_witness:
  "Option.bind (EncodeMacFrame \<lparr>ftype = Data, seq = 3, ack = 255, pending = 1, arg = 2, payload = [69, 0]\<rparr>)
     DecodeMacFrame
   = Some \<lparr>ftype = Data, seq = 3, ack = 255, pending = 1, arg = 2, payload = [69, 0]\<rparr>"
proof -
  let ?f = "\<lparr>ftype = Data, seq = 3, ack = 255, pending = 1, arg = 2, payload = [69, 0]\<rparr>"
  have "frame_wf ?f"
    by (simp add: frame_wf_def)
  then show ?thesis
    using codec_round_trip [of ?f "[]"] by auto
qed

text \<open>\<open>EncodeMacFrame\<close> fails exactly on a payload of more than 27 bytes and
  \<open>DecodeMacFrame\<close> exactly on a buffer that is not 32 bytes long; a decoded frame has at most 27
  bytes of payload, taken from behind the header, and none unless it is a DATA frame.\<close>

lemma codec_errors:
  "(EncodeMacFrame f = None \<longleftrightarrow> 27 < length (payload f)) \<and>
   (DecodeMacFrame p = None \<longleftrightarrow> length p \<noteq> 32) \<and>
   (\<forall>g \<in> set_option (DecodeMacFrame p).
      length (payload g) \<le> 27 \<and> prefix (payload g) (drop 5 p) \<and>
      (ftype g \<noteq> Data \<longrightarrow> payload g = []))"
  by (auto simp: EncodeMacFrame_eq DecodeMacFrame_eq take_is_prefix)

end
