(* ===== verification/Ip_Packet.thy ===== *)
theory Ip_Packet
  imports Prelude
begin

unbundle bit_operations_syntax

text \<open>
  \<open>RadioInterface::IsValidIpPacket\<close> of \<open>radio_interface.cc\<close>: the check that admits a packet read from
  the tunnel and that decides whether a reassembled packet is written back to it. The definition
  keeps the byte arithmetic of the code; \<open>ip_spec\<close> is the arithmetic reading of the same headers.
\<close>

text \<open>The big-endian 16-bit field at bytes \<open>hi\<close> and \<open>lo\<close>: \<open>(uint16_t(hi) << 8) | uint16_t(lo)\<close>.\<close>

definition be16 :: "u8 \<Rightarrow> u8 \<Rightarrow> u16" where
  "be16 hi lo = (push_bit 8 (ucast hi) OR ucast lo)"

definition IsValidIpPacket :: "bytes \<Rightarrow> bool" where
  "IsValidIpPacket packet =
     (if packet = [] then False
      else
        let version = drop_bit 4 (packet ! 0) in
        if version = 4 then
          (if length packet < 20 then False
           else
             let ihl = unat (packet ! 0 AND 0x0F) * 4 in
             if ihl < 20 \<or> length packet < ihl then False
             else
               let total_len = be16 (packet ! 2) (packet ! 3) in
               if unat total_len < ihl then False
               else length packet = unat total_len)
        else if version = 6 then
          (if length packet < 40 then False
           else
             let payload_len = be16 (packet ! 4) (packet ! 5) in
             length packet = 40 + unat payload_len)
        else False)"

definition ip_spec :: "bytes \<Rightarrow> bool" where
  "ip_spec p \<longleftrightarrow>
     (20 \<le> length p \<and> unat (p ! 0) div 16 = 4 \<and> 5 \<le> unat (p ! 0) mod 16 \<and>
        4 * (unat (p ! 0) mod 16) \<le> length p \<and>
        length p = 256 * unat (p ! 2) + unat (p ! 3)) \<or>
     (40 \<le> length p \<and> unat (p ! 0) div 16 = 6 \<and>
        length p = 40 + 256 * unat (p ! 4) + unat (p ! 5))"

lemma unat_be16: "unat (be16 hi lo) = 256 * unat hi + unat lo"
proof -
  have "\<not> bit lo n" if "8 \<le> n" for n
    using that bit_imp_le_length [of lo n] by auto
  then have "(push_bit 8 (ucast hi) :: u16) AND ucast lo = 0"
    by (intro bit_word_eqI) (auto simp: bit_simps)
  then have "(push_bit 8 (ucast hi) OR ucast lo :: u16) = push_bit 8 (ucast hi) + ucast lo"
    by (simp add: disjunctive_add_eq_or)
  then show ?thesis
    using unat_u8_less [of hi] unat_u8_less [of lo]
    by (simp add: be16_def unat_word_ariths unsigned_push_bit_eq unsigned_ucast_eq
        take_bit_eq_mod push_bit_eq_mult mod_add_left_eq)
qed

lemma unat_low_nibble: "unat ((b :: u8) AND 0x0F) = unat b mod 16"
  using take_bit_eq_mask [of 4 "unat b"]
  by (simp add: unsigned_and_eq take_bit_eq_mod mask_eq_exp_minus_1)

lemma high_nibble_eq: "drop_bit 4 (b :: u8) = of_nat n \<longleftrightarrow> unat b div 16 = n" if "n < 256"
proof -
  have "unat (drop_bit 4 b) = unat b div 16"
    by (subst unat_drop_bit_eq) (simp add: drop_bit_eq_div)
  then show ?thesis
    using that by (simp add: u8_eq_unat)
qed

lemmas high_nibble_4 = high_nibble_eq [of 4, simplified]
lemmas high_nibble_6 = high_nibble_eq [of 6, simplified]

lemma valid_eq_spec: "IsValidIpPacket p \<longleftrightarrow> ip_spec p"
  unfolding IsValidIpPacket_def ip_spec_def Let_def high_nibble_4 high_nibble_6
    unat_be16 unat_low_nibble
  by auto

lemma IsValidIpPacket_length: "IsValidIpPacket p \<Longrightarrow> 20 \<le> length p"
  by (auto simp: valid_eq_spec ip_spec_def)

lemma IsValidIpPacket_nonempty [simp]: "\<not> IsValidIpPacket []"
  by (simp add: IsValidIpPacket_def)

lemma valid_packet_nonempty: "IsValidIpPacket p \<Longrightarrow> p \<noteq> []"
  by auto

section \<open>Properties\<close>

text \<open>C17. \<open>IsValidIpPacket\<close>, with its byte arithmetic on shifted and combined
  16-bit values, accepts exactly the buffers that are one IPv4 packet with a complete header or one
  IPv6 packet, and whose length is the one the packet announces.\<close>

theorem IsValidIpPacket_spec: "IsValidIpPacket p = ip_spec p"
  by (rule valid_eq_spec)

text \<open>No valid packet is a proper prefix of another: a packet put
  together from fragments cannot be taken for complete too early.\<close>

lemma IsValidIpPacket_prefix_free:
  assumes "IsValidIpPacket p" and "IsValidIpPacket q" and "prefix p q"
  shows "p = q"
proof -
  have nth: "q ! i = p ! i" if "i < 20" for i
    using prefix_nth_eq [OF assms(3), of i] IsValidIpPacket_length [OF assms(1)] that by simp
  have "length p = length q"
    using assms(1,2) nth [of 0] nth [of 2] nth [of 3] nth [of 4] nth [of 5]
    by (auto simp: valid_eq_spec ip_spec_def)
  then show ?thesis
    using assms(3) by (auto simp: prefix_def)
qed

end
