(* ===== verification/Arq_Link.thy ===== *)
theory Arq_Link
  imports Prelude
begin

text \<open>
  The stop-and-wait argument, independent of the code: one direction of a link whose sender keeps
  one fragment in flight under a sequence number and whose receiver reports the last number it
  accepted. Three interfaces, each extending the one before:

  \<^item> \<open>seq_space\<close>: the sequence numbers and their successor;
  \<^item> \<open>arq_sender\<close>: a sender with at most one fragment in flight and its \<open>commit\<close> of an
    acknowledgement;
  \<^item> \<open>arq\<close>: such a sender and a receiver whose \<open>accept\<close> of the fragment in flight keeps a data
    relation \<open>sync\<close> between the two.

  Their client is \<open>chan_inv\<close>, the invariant that ties both ends to the messages between them:
  \<open>ds\<close> are the fragments on their way to the receiver and \<open>as\<close> the acknowledgements on their way
  back, both first-in first-out. Every step of a lossy, duplicating channel and of its two ends
  keeps it. Nothing here mentions the program; the interpretation is in \<open>Fragment_Link\<close>.
\<close>

locale seq_space =
  fixes nxt :: "'q \<Rightarrow> 'q" and ok :: "'q \<Rightarrow> bool" and noseq :: "'q"
  assumes nxt_ok: "ok q \<Longrightarrow> ok (nxt q)"
    and nxt_neq: "ok q \<Longrightarrow> nxt q \<noteq> q"
    and noseq: "\<not> ok noseq"

locale arq_sender = seq_space nxt ok noseq
  for nxt :: "'q \<Rightarrow> 'q" and ok :: "'q \<Rightarrow> bool" and noseq :: "'q" +
  fixes wf :: "'s \<Rightarrow> bool" and cur :: "'s \<Rightarrow> 'q" and busy :: "'s \<Rightarrow> bool"
    and frag :: "'s \<Rightarrow> 'f" and commit :: "'q \<Rightarrow> 's \<Rightarrow> 's"
  assumes cur_ok: "wf s \<Longrightarrow> ok (cur s)"
    and commit_wf: "wf s \<Longrightarrow> wf (commit a s)"
    and commit_other: "wf s \<Longrightarrow> \<not> busy s \<or> a \<noteq> cur s \<Longrightarrow> commit a s = s"
    and commit_cur: "wf s \<Longrightarrow> busy s \<Longrightarrow> cur (commit (cur s) s) = nxt (cur s)"
    and commit_idle: "wf s \<Longrightarrow> busy s \<Longrightarrow> \<not> busy (commit (cur s) s)"

locale arq = arq_sender nxt ok noseq wf cur busy frag commit
  for nxt :: "'q \<Rightarrow> 'q" and ok :: "'q \<Rightarrow> bool" and noseq :: "'q"
    and wf :: "'s \<Rightarrow> bool" and cur :: "'s \<Rightarrow> 'q" and busy :: "'s \<Rightarrow> bool"
    and frag :: "'s \<Rightarrow> 'f" and commit :: "'q \<Rightarrow> 's \<Rightarrow> 's" +
  fixes lastq :: "'r \<Rightarrow> 'q option" and accept :: "'q \<Rightarrow> 'f \<Rightarrow> 'r \<Rightarrow> 'r"
    and sync :: "'g \<Rightarrow> 's \<Rightarrow> 'r \<Rightarrow> bool"
  assumes accept_dup: "lastq r = Some q \<Longrightarrow> ok q \<Longrightarrow> accept q f r = r"
    and accept_new:
      "wf s \<Longrightarrow> busy s \<Longrightarrow> sync g s r
        \<Longrightarrow> lastq r = None \<or> (\<exists>l. lastq r = Some l \<and> ok l \<and> nxt l = cur s)
        \<Longrightarrow> lastq (accept (cur s) (frag s) r) = Some (cur s)
          \<and> sync g (commit (cur s) s) (accept (cur s) (frag s) r)"

context arq
begin

definition ack_of :: "'r \<Rightarrow> 'q" where
  "ack_of r = (case lastq r of None \<Rightarrow> noseq | Some q \<Rightarrow> q)"

text \<open>The receiver has accepted everything before the sender's current number.\<close>

definition in_step :: "'s \<Rightarrow> 'r \<Rightarrow> bool" where
  "in_step s r \<longleftrightarrow> lastq r = None \<or> (\<exists>l. lastq r = Some l \<and> ok l \<and> nxt l = cur s)"

text \<open>\<open>level\<close>: the fragment in flight, if any, is not yet accepted.\<close>

definition level :: "'g \<Rightarrow> 's \<Rightarrow> 'r \<Rightarrow> ('q \<times> 'f) list \<Rightarrow> 'q list \<Rightarrow> bool" where
  "level g s r ds as \<longleftrightarrow>
     in_step s r \<and> sync g s r \<and> (\<forall>a \<in> set as. a = ack_of r) \<and>
     two_phase (\<lambda>d. lastq r = Some (fst d)) (\<lambda>d. busy s \<and> d = (cur s, frag s)) ds"

text \<open>\<open>ahead\<close>: the fragment in flight is accepted and its acknowledgement still on its way.\<close>

definition ahead :: "'g \<Rightarrow> 's \<Rightarrow> 'r \<Rightarrow> ('q \<times> 'f) list \<Rightarrow> 'q list \<Rightarrow> bool" where
  "ahead g s r ds as \<longleftrightarrow>
     busy s \<and> lastq r = Some (cur s) \<and> sync g (commit (cur s) s) r \<and>
     (\<forall>d \<in> set ds. fst d = cur s) \<and> two_phase (\<lambda>a. a \<noteq> cur s) (\<lambda>a. a = cur s) as"

definition chan_inv :: "'g \<Rightarrow> 's \<Rightarrow> 'r \<Rightarrow> ('q \<times> 'f) list \<Rightarrow> 'q list \<Rightarrow> bool" where
  "chan_inv g s r ds as \<longleftrightarrow> wf s \<and> (level g s r ds as \<or> ahead g s r ds as)"

lemma in_step_ack: "wf s \<Longrightarrow> in_step s r \<Longrightarrow> ack_of r \<noteq> cur s"
  using cur_ok noseq nxt_neq by (fastforce simp: in_step_def ack_of_def)

lemma chan_init: "wf s \<Longrightarrow> lastq r = None \<Longrightarrow> sync g s r \<Longrightarrow> chan_inv g s r [] []"
  by (simp add: chan_inv_def level_def in_step_def)

lemma chan_wf: "chan_inv g s r ds as \<Longrightarrow> wf s"
  by (simp add: chan_inv_def)

text \<open>Sending: the sender puts its fragment in flight on the channel, once more or anew.\<close>

lemma chan_send:
  "chan_inv g s r ds as \<Longrightarrow> busy s \<Longrightarrow> chan_inv g s r (ds @ [(cur s, frag s)]) as"
  by (auto simp: chan_inv_def level_def ahead_def intro!: two_phase_snocQ)

text \<open>The receiver reports the last number it accepted.\<close>

lemma chan_ack: "chan_inv g s r ds as \<Longrightarrow> chan_inv g s r ds (as @ [ack_of r])"
  by (auto simp: chan_inv_def level_def ahead_def ack_of_def intro!: two_phase_snocQ)

text \<open>A fragment that arrives is the duplicate of the last one or the one in flight.\<close>

lemma chan_expected:
  assumes "chan_inv g s r (d # ds) as"
  shows "ok (fst d) \<and>
    (lastq r = None \<or> lastq r = Some (fst d) \<or> (\<exists>l. lastq r = Some l \<and> fst d = nxt l))"
  using assms cur_ok by (auto simp: chan_inv_def level_def ahead_def in_step_def)

text \<open>Once the fragment in flight is accepted, only copies of it arrive.\<close>

lemma chan_accepted:
  "chan_inv g s r (d # ds) as \<Longrightarrow> busy s \<Longrightarrow> lastq r = Some (cur s) \<Longrightarrow> fst d = cur s"
  using cur_ok nxt_neq by (fastforce simp: chan_inv_def level_def ahead_def in_step_def)

lemma chan_receive:
  assumes "chan_inv g s r (d # ds) as"
  shows "chan_inv g s (accept (fst d) (snd d) r) ds as"
proof (cases "lastq r = Some (fst d)")
  case True
  then have "accept (fst d) (snd d) r = r"
    using assms chan_expected accept_dup by blast
  then show ?thesis
    using assms by (auto simp: chan_inv_def level_def ahead_def intro: two_phase_tl two_phase_allQ)
next
  case False
  with assms have wf: "wf s" and lv: "level g s r (d # ds) as"
    by (auto simp: chan_inv_def ahead_def)
  then have new: "\<forall>e \<in> set (d # ds). busy s \<and> e = (cur s, frag s)"
    using False by (auto simp: level_def dest: two_phase_headQ)
  then have acc: "lastq (accept (fst d) (snd d) r) = Some (cur s)"
      "sync g (commit (cur s) s) (accept (fst d) (snd d) r)"
    using wf lv accept_new by (auto simp: level_def in_step_def)
  from lv have "\<forall>a \<in> set as. a = ack_of r" and "in_step s r"
    by (auto simp: level_def)
  with in_step_ack [OF wf, of r] have "two_phase (\<lambda>a. a \<noteq> cur s) (\<lambda>a. a = cur s) as"
    by (intro two_phase_allP) auto
  with wf new acc show ?thesis
    by (auto simp: chan_inv_def ahead_def)
qed

lemma chan_commit:
  assumes "chan_inv g s r ds (a # as)"
  shows "chan_inv g (commit a s) r ds as"
proof (cases "busy s \<and> a = cur s")
  case False
  with assms have "commit a s = s"
    using commit_other chan_wf by blast
  with assms show ?thesis
    by (auto simp: chan_inv_def level_def ahead_def intro: two_phase_tl two_phase_allQ)
next
  case True
  with assms have wf: "wf s" and ah: "ahead g s r ds (a # as)"
    using in_step_ack [of s r] unfolding chan_inv_def level_def by auto
  moreover from this True have "\<forall>b \<in> set as. b = cur s"
    by (auto simp: ahead_def)
  ultimately have "level g (commit a s) r ds as"
    using True cur_ok commit_cur
    by (auto simp: level_def ahead_def in_step_def ack_of_def intro!: two_phase_allP)
  with wf show ?thesis
    by (simp add: chan_inv_def commit_wf)
qed

text \<open>Loss and duplication.\<close>

lemma chan_lose_data: "chan_inv g s r (xs @ ms @ ys) as \<Longrightarrow> chan_inv g s r (xs @ ys) as"
  by (auto simp: chan_inv_def level_def ahead_def intro: two_phase_drop_mid)

lemma chan_lose_ack: "chan_inv g s r ds (xs @ ms @ ys) \<Longrightarrow> chan_inv g s r ds (xs @ ys)"
  by (auto simp: chan_inv_def level_def ahead_def intro: two_phase_drop_mid)

lemma chan_dup_data: "chan_inv g s r (xs @ d # ys) as \<Longrightarrow> chan_inv g s r (xs @ d # d # ys) as"
  by (auto simp: chan_inv_def level_def ahead_def intro: two_phase_dup_mid)

lemma chan_dup_ack: "chan_inv g s r ds (xs @ a # ys) \<Longrightarrow> chan_inv g s r ds (xs @ a # a # ys)"
  by (auto simp: chan_inv_def level_def ahead_def intro: two_phase_dup_mid)

text \<open>
  Steps of the two ends that leave the protocol state alone: a new fragment put in flight, data
  queued at the sender, bookkeeping on either side.
\<close>

lemma chan_update:
  assumes inv: "chan_inv g s r ds as" and wf: "wf s'" and cur: "cur s' = cur s"
    and busy: "busy s \<Longrightarrow> busy s' \<and> frag s' = frag s" and lastq: "lastq r' = lastq r"
    and sync: "sync g s r \<Longrightarrow> sync g' s' r'"
    and sync_ahead: "busy s \<Longrightarrow> sync g (commit (cur s) s) r \<Longrightarrow> sync g' (commit (cur s') s') r'"
  shows "chan_inv g' s' r' ds as"
proof -
  have "level g' s' r' ds as" if l: "level g s r ds as"
  proof -
    have "two_phase (\<lambda>d. lastq r' = Some (fst d)) (\<lambda>d. busy s' \<and> d = (cur s', frag s')) ds"
      by (rule two_phase_mono [of "\<lambda>d. lastq r = Some (fst d)" "\<lambda>d. busy s \<and> d = (cur s, frag s)"])
        (use l busy in \<open>auto simp: level_def lastq cur\<close>)
    with l sync show ?thesis
      by (simp add: level_def in_step_def ack_of_def lastq cur)
  qed
  moreover have "ahead g' s' r' ds as" if "ahead g s r ds as"
    using that busy sync_ahead by (simp add: ahead_def lastq cur)
  ultimately show ?thesis
    using inv wf by (auto simp: chan_inv_def)
qed

end

end
