(* ===== verification/Link_State.thy ===== *)
theory Link_State
  imports Mac_Frame Ip_Packet Arq_Link
begin

text \<open>
  The state and the operations of the base class \<open>RadioInterface\<close> (\<open>radio_interface.h\<close>,
  \<open>radio_interface.cc\<close>): the queue of IP packets read from the tunnel, the fragment in flight, the
  reassembly buffer and the sequence numbers. The record \<open>link\<close> is extended by \<open>coordinator\<close> and
  \<open>peer\<close> exactly as the class is derived from, so every operation here is polymorphic in the
  extension (\<open>'a link_scheme\<close>).

  Two fields stand for the outside world: \<open>tun_out\<close> is the sequence of packets handed to
  \<open>write(tunnel_fd_)\<close>, and \<open>dev_ops\<close> the sequence of calls on the radio device and of sleeps.
\<close>

section \<open>State\<close>

text \<open>RF24 calls with their arguments, and \<open>SleepUs\<close>.\<close>

datatype dev_op =
    StopListening
  | StartListening
  | WriteRadio bytes
  | ReadRadio
  | FlushTx
  | FlushRx
  | OpenWritingPipe bytes
  | OpenReadingPipe u8 bytes
  | Sleep u64

record link =
  read_buffer :: "bytes list"
  frame_buffer :: bytes
  next_tx_seq :: u8
  tx_in_flight :: bool
  tx_inflight_seq :: u8
  tx_inflight_bytes_left :: u8
  tx_inflight_payload :: bytes
  last_rx_seq :: "u8 option"
  running :: bool
  tunnel_logs_enabled :: bool
  irq_pin :: int
  irq_chip :: "string option"
  irq_line :: "u32 option"
  resolved_irq_chip_name :: string
  resolved_irq_line_offset :: u32
  resolved_irq_global_gpio :: int
  tun_out :: "bytes list"
  dev_ops :: "dev_op list"

text \<open>The members as the constructor initialises them, before any device call.\<close>

definition RadioInterface_init :: "int \<Rightarrow> link" where
  "RadioInterface_init pin =
     \<lparr>read_buffer = [], frame_buffer = [], next_tx_seq = 1, tx_in_flight = False,
      tx_inflight_seq = 0, tx_inflight_bytes_left = 0, tx_inflight_payload = [],
      last_rx_seq = None, running = True, tunnel_logs_enabled = False, irq_pin = pin,
      irq_chip = None, irq_line = None, resolved_irq_chip_name = [], resolved_irq_line_offset = 0, resolved_irq_global_gpio = -1,
      tun_out = [], dev_ops = []\<rparr>"

definition SetTunnelLogsEnabled :: "bool \<Rightarrow> 'a link_scheme \<Rightarrow> 'a link_scheme" where
  "SetTunnelLogsEnabled enabled s = s\<lparr>tunnel_logs_enabled := enabled\<rparr>"

definition dev :: "dev_op \<Rightarrow> 'a link_scheme \<Rightarrow> 'a link_scheme" where
  "dev c s = s\<lparr>dev_ops := dev_ops s @ [c]\<rparr>"

text \<open>The pipe address built from a 32-bit address: four bytes, least significant first, and 0.\<close>

definition pipe_address :: "u32 \<Rightarrow> bytes" where
  "pipe_address addr =
     [ucast addr, ucast (drop_bit 8 addr), ucast (drop_bit 16 addr), ucast (drop_bit 24 addr), 0]"

definition kPipeId :: u8 where "kPipeId = 1"

section \<open>Sequence numbers\<close>

definition AdvanceTxSeq :: "'a link_scheme \<Rightarrow> 'a link_scheme" where
  "AdvanceTxSeq s =
     (let n = next_tx_seq s + 1 in
      s\<lparr>next_tx_seq := (if n = 0 \<or> n > kMaxSeq then 1 else n)\<rparr>)"

definition NextSeq :: "u8 \<Rightarrow> u8" where
  "NextSeq q = (if q = 0 \<or> q \<ge> kMaxSeq then 1 else q + 1)"

definition IsExpectedRxSeq :: "'a link_scheme \<Rightarrow> u8 \<Rightarrow> bool" where
  "IsExpectedRxSeq s q =
     (if q = 0 then False
      else case last_rx_seq s of None \<Rightarrow> True | Some prev \<Rightarrow> q = NextSeq prev)"

definition ResetRxAssemblyLocked :: "'a link_scheme \<Rightarrow> 'a link_scheme" where
  "ResetRxAssemblyLocked s = s\<lparr>frame_buffer := [], last_rx_seq := None\<rparr>"

text \<open>The sequence numbers the code hands out.\<close>

definition seq_ok :: "u8 \<Rightarrow> bool" where
  "seq_ok q \<longleftrightarrow> 1 \<le> q \<and> q \<le> kMaxSeq"

section \<open>Transmit side\<close>

definition GetReadBufferSize :: "'a link_scheme \<Rightarrow> nat" where
  "GetReadBufferSize s = length (read_buffer s)"

declare GetReadBufferSize_def [simp]

definition GetTransferSize :: "bytes \<Rightarrow> nat" where
  "GetTransferSize frame = min (length frame) kMaxPayloadSize"

definition PendingHintLocked :: "'a link_scheme \<Rightarrow> u8" where
  "PendingHintLocked s = of_nat (min (length (read_buffer s)) 255)"

definition ack_value :: "'a link_scheme \<Rightarrow> u8" where
  "ack_value s = (case last_rx_seq s of None \<Rightarrow> kNoSeq | Some q \<Rightarrow> q)"

definition BuildNextDataFrameLocked :: "'a link_scheme \<Rightarrow> bool \<times> MacFrame \<times> 'a link_scheme" where
  "BuildNextDataFrameLocked s =
     (let frame = empty_frame\<lparr>ftype := Data, ack := ack_value s, pending := PendingHintLocked s\<rparr> in
      if tx_in_flight s then
        (True, frame\<lparr>seq := tx_inflight_seq s, arg := tx_inflight_bytes_left s,
                     payload := tx_inflight_payload s\<rparr>, s)
      else case read_buffer s of
        [] \<Rightarrow> (False, frame, s)
      | current # _ \<Rightarrow>
          (let transfer_size = GetTransferSize current;
               s = s\<lparr>tx_in_flight := True, tx_inflight_seq := next_tx_seq s,
                     tx_inflight_bytes_left := of_nat (min (length current) 255),
                     tx_inflight_payload := take transfer_size current\<rparr>
           in (True, frame\<lparr>seq := tx_inflight_seq s, arg := tx_inflight_bytes_left s,
                           payload := tx_inflight_payload s\<rparr>, s)))"

definition CommitAckLocked :: "u8 \<Rightarrow> 'a link_scheme \<Rightarrow> 'a link_scheme" where
  "CommitAckLocked ack_seq s =
     (if \<not> tx_in_flight s then s
      else if ack_seq \<noteq> tx_inflight_seq s then s
      else
        let s = (case read_buffer s of
                   [] \<Rightarrow> s
                 | frame # rest \<Rightarrow>
                     (let consumed = min (length frame) (length (tx_inflight_payload s));
                          frame = drop consumed frame
                      in s\<lparr>read_buffer := (if frame = [] then rest else frame # rest)\<rparr>));
            s = s\<lparr>tx_in_flight := False, tx_inflight_seq := 0, tx_inflight_bytes_left := 0,
                  tx_inflight_payload := []\<rparr>
        in AdvanceTxSeq s)"

section \<open>Receive side\<close>

definition WriteTunnel :: "'a link_scheme \<Rightarrow> 'a link_scheme" where
  "WriteTunnel s =
     (if \<not> IsValidIpPacket (frame_buffer s) then s\<lparr>frame_buffer := []\<rparr>
      else s\<lparr>tun_out := tun_out s @ [frame_buffer s], frame_buffer := []\<rparr>)"

definition ConsumeDataFrameLocked :: "MacFrame \<Rightarrow> 'a link_scheme \<Rightarrow> bool \<times> 'a link_scheme" where
  "ConsumeDataFrameLocked frame s =
     (let append =
        (\<lambda>s. let s = s\<lparr>last_rx_seq := Some (seq frame)\<rparr> in
             if payload frame \<noteq> [] then
               (let s = s\<lparr>frame_buffer := frame_buffer s @ payload frame\<rparr> in
                if unat (arg frame) \<le> kMaxPayloadSize then (True, WriteTunnel s) else (True, s))
             else (True, s))
      in
      if ftype frame \<noteq> Data then (True, s)
      else if seq frame = 0 then (False, ResetRxAssemblyLocked s)
      else case last_rx_seq s of
        Some prev \<Rightarrow>
          (if seq frame = prev then (True, s)
           else if seq frame \<noteq> NextSeq prev then (False, ResetRxAssemblyLocked s)
           else append s)
      | None \<Rightarrow> append s)"

section \<open>Session reset\<close>

text \<open>
  The block under the lock that \<open>PrimaryRadioInterface::ConnectionReset\<close> and
  \<open>SecondaryRadioInterface::HandleReset\<close> share word for word. It keeps \<open>read_buffer_\<close>.
\<close>

definition clear_session :: "'a link_scheme \<Rightarrow> 'a link_scheme" where
  "clear_session s =
     s\<lparr>next_tx_seq := 1, tx_in_flight := False, tx_inflight_seq := 0,
       tx_inflight_bytes_left := 0, tx_inflight_payload := [], last_rx_seq := None,
       frame_buffer := []\<rparr>"

section \<open>The tunnel thread\<close>

text \<open>
  One pass of \<open>TunnelThread\<close> is three kinds of steps, because the main thread runs between them: the
  test of \<open>running_\<close> at the head of the outer loop, the return of \<open>read\<close> with what follows it up to
  the enqueue, and one test of the inner loop that waits for the queue to shrink. A thread at
  \<open>Tunnel_read\<close> is blocked in \<open>read\<close> until there is input, and does not look at \<open>running_\<close> when it
  returns. \<open>read\<close> returns at most the 3200 bytes of the stack buffer; \<open>None\<close> is a negative result. The
  other steps do not use the input.
\<close>

datatype tunnel_pc = Tunnel_loop | Tunnel_read | Tunnel_throttle | Tunnel_done

definition kMaxBufferedFrames :: nat where "kMaxBufferedFrames = 1024"
definition kTunnelReadSize :: nat where "kTunnelReadSize = 3200"

definition tunnel_push :: "bytes \<Rightarrow> 'a link_scheme \<Rightarrow> 'a link_scheme" where
  "tunnel_push packet s = s\<lparr>read_buffer := read_buffer s @ [packet]\<rparr>"

fun TunnelThread_step ::
  "bytes option \<Rightarrow> tunnel_pc \<times> 'a link_scheme \<Rightarrow> tunnel_pc \<times> 'a link_scheme" where
  "TunnelThread_step _ (Tunnel_loop, s) = (if running s then Tunnel_read else Tunnel_done, s)"
| "TunnelThread_step input (Tunnel_read, s) =
     (case input of
        None \<Rightarrow> (Tunnel_loop, s)
      | Some bs \<Rightarrow>
          (let packet = take kTunnelReadSize bs in
           if \<not> IsValidIpPacket packet then (Tunnel_loop, s)
           else (Tunnel_throttle, tunnel_push packet s)))"
| "TunnelThread_step _ (Tunnel_throttle, s) =
     (if GetReadBufferSize s > kMaxBufferedFrames \<and> running s
      then (Tunnel_throttle, dev (Sleep 1000) s) else (Tunnel_loop, s))"
| "TunnelThread_step _ (Tunnel_done, s) = (Tunnel_done, s)"

section \<open>Sequence numbers: lemmas\<close>

lemma seq_ok_unat: "seq_ok q \<longleftrightarrow> 1 \<le> unat q \<and> unat q \<le> 31"
  by (simp add: seq_ok_def u8_le_unat)

lemma unat_NextSeq: "unat (NextSeq q) = (if unat q = 0 \<or> unat q \<ge> 31 then 1 else Suc (unat q))"
  by (auto simp: NextSeq_def u8_eq_unat u8_le_unat unat_u8_Suc)

lemma NextSeq_ok [simp]: "seq_ok (NextSeq q)"
  by (simp add: seq_ok_unat unat_NextSeq)

lemma NextSeq_neq: "seq_ok q \<Longrightarrow> NextSeq q \<noteq> q"
  by (auto simp: seq_ok_unat u8_eq_unat unat_NextSeq)

lemma seq_ok_0 [simp]: "\<not> seq_ok 0"
  by (simp add: seq_ok_unat)

lemma seq_ok_1 [simp]: "seq_ok 1"
  by (simp add: seq_ok_unat)

lemma AdvanceTxSeq_NextSeq:
  assumes "seq_ok (next_tx_seq s)"
  shows "AdvanceTxSeq s = s\<lparr>next_tx_seq := NextSeq (next_tx_seq s)\<rparr>"
proof -
  have "unat (next_tx_seq s + 1) = Suc (unat (next_tx_seq s))"
    using assms by (intro unat_u8_Suc) (simp add: seq_ok_unat)
  then show ?thesis
    using assms by (auto simp: AdvanceTxSeq_def Let_def NextSeq_def seq_ok_unat u8_eq_unat u8_less_unat
        u8_le_unat)
qed

interpretation seqno: seq_space NextSeq seq_ok kNoSeq
  by unfold_locales (auto simp: NextSeq_neq nerf_defs)

section \<open>Well-formed link states\<close>

text \<open>
  What every operation keeps: queued packets are not empty; a fragment in flight is the first
  27 bytes of the packet at the head of the queue, under the current sequence number and with the
  remaining length, capped to a byte, as its argument.
\<close>

definition link_wf :: "'a link_scheme \<Rightarrow> bool" where
  "link_wf s \<longleftrightarrow>
     seq_ok (next_tx_seq s) \<and> [] \<notin> set (read_buffer s) \<and>
     (last_rx_seq s = None \<longrightarrow> frame_buffer s = []) \<and> last_rx_seq s \<noteq> Some 0 \<and>
     (if tx_in_flight s
      then read_buffer s \<noteq> [] \<and> tx_inflight_seq s = next_tx_seq s \<and>
           tx_inflight_bytes_left s = of_nat (min (length (hd (read_buffer s))) 255) \<and>
           tx_inflight_payload s = take 27 (hd (read_buffer s))
      else tx_inflight_seq s = 0 \<and> tx_inflight_bytes_left s = 0 \<and> tx_inflight_payload s = [])"

lemma link_wf_init: "link_wf (RadioInterface_init pin)"
  by (simp add: link_wf_def RadioInterface_init_def)

lemma link_wf_clear: "link_wf s \<Longrightarrow> link_wf (clear_session s)"
  by (simp add: link_wf_def clear_session_def)

lemma link_wf_push: "link_wf s \<Longrightarrow> p \<noteq> [] \<Longrightarrow> link_wf (tunnel_push p s)"
  by (auto simp: link_wf_def tunnel_push_def split: if_splits)

lemma link_wf_commit: "link_wf s \<Longrightarrow> link_wf (CommitAckLocked a s)"
  by (cases "read_buffer s")
    (auto simp: link_wf_def CommitAckLocked_def AdvanceTxSeq_NextSeq Let_def)

lemma link_wf_WriteTunnel: "link_wf s \<Longrightarrow> link_wf (WriteTunnel s)"
  by (auto simp: link_wf_def WriteTunnel_def split: option.splits)

lemma link_wf_consume: "link_wf s \<Longrightarrow> link_wf (snd (ConsumeDataFrameLocked f s))"
proof -
  assume wf: "link_wf s"
  have "link_wf (ResetRxAssemblyLocked s)"
    using wf by (simp add: link_wf_def ResetRxAssemblyLocked_def)
  moreover have "link_wf (s\<lparr>last_rx_seq := Some q, frame_buffer := b\<rparr>)"
      "link_wf (s\<lparr>last_rx_seq := Some q\<rparr>)" if "q \<noteq> 0" for q b
    using wf that by (simp_all add: link_wf_def)
  ultimately show ?thesis
    using wf by (simp add: ConsumeDataFrameLocked_def Let_def link_wf_WriteTunnel split: option.split)
qed

section \<open>Fields each operation leaves alone\<close>

lemma commit_frame [frame_simps]:
  "frame_buffer (CommitAckLocked a s) = frame_buffer s"
  "last_rx_seq (CommitAckLocked a s) = last_rx_seq s"
  "tun_out (CommitAckLocked a s) = tun_out s"
  "dev_ops (CommitAckLocked a s) = dev_ops s"
  "irq_line (CommitAckLocked a s) = irq_line s"
  "running (CommitAckLocked a s) = running s"
  "link.more (CommitAckLocked a s) = link.more s"
  by (auto simp: CommitAckLocked_def AdvanceTxSeq_def Let_def split: list.splits)

lemma consume_frame [frame_simps]:
  "read_buffer (snd (ConsumeDataFrameLocked f s)) = read_buffer s"
  "next_tx_seq (snd (ConsumeDataFrameLocked f s)) = next_tx_seq s"
  "tx_in_flight (snd (ConsumeDataFrameLocked f s)) = tx_in_flight s"
  "tx_inflight_seq (snd (ConsumeDataFrameLocked f s)) = tx_inflight_seq s"
  "tx_inflight_bytes_left (snd (ConsumeDataFrameLocked f s)) = tx_inflight_bytes_left s"
  "tx_inflight_payload (snd (ConsumeDataFrameLocked f s)) = tx_inflight_payload s"
  "dev_ops (snd (ConsumeDataFrameLocked f s)) = dev_ops s"
  "irq_line (snd (ConsumeDataFrameLocked f s)) = irq_line s"
  "running (snd (ConsumeDataFrameLocked f s)) = running s"
  "link.more (snd (ConsumeDataFrameLocked f s)) = link.more s"
  by (auto simp: ConsumeDataFrameLocked_def Let_def ResetRxAssemblyLocked_def WriteTunnel_def
      split: option.splits)

lemma dev_frame [frame_simps]:
  "read_buffer (dev c s) = read_buffer s" "next_tx_seq (dev c s) = next_tx_seq s"
  "tx_in_flight (dev c s) = tx_in_flight s" "tx_inflight_seq (dev c s) = tx_inflight_seq s"
  "tx_inflight_bytes_left (dev c s) = tx_inflight_bytes_left s"
  "tx_inflight_payload (dev c s) = tx_inflight_payload s"
  "frame_buffer (dev c s) = frame_buffer s" "last_rx_seq (dev c s) = last_rx_seq s"
  "tun_out (dev c s) = tun_out s" "irq_line (dev c s) = irq_line s"
  "running (dev c s) = running s" "link.more (dev c s) = link.more s"
  "dev_ops (dev c s) = dev_ops s @ [c]"
  by (simp_all add: dev_def)

section \<open>What the operations return\<close>

lemma build_none:
  "\<not> tx_in_flight s \<Longrightarrow> read_buffer s = [] \<Longrightarrow>
     BuildNextDataFrameLocked s
       = (False, empty_frame\<lparr>ftype := Data, ack := ack_value s, pending := PendingHintLocked s\<rparr>, s)"
  by (simp add: BuildNextDataFrameLocked_def)

text \<open>The state with the next fragment in flight, and the frame that carries it.\<close>

definition in_flight :: "'a link_scheme \<Rightarrow> 'a link_scheme" where
  "in_flight s =
     (if tx_in_flight s then s
      else s\<lparr>tx_in_flight := True, tx_inflight_seq := next_tx_seq s,
             tx_inflight_bytes_left := of_nat (min (length (hd (read_buffer s))) 255),
             tx_inflight_payload := take 27 (hd (read_buffer s))\<rparr>)"

definition data_frame :: "'a link_scheme \<Rightarrow> MacFrame" where
  "data_frame s =
     \<lparr>ftype = Data, seq = tx_inflight_seq s, ack = ack_value s, pending = PendingHintLocked s,
      arg = tx_inflight_bytes_left s, payload = tx_inflight_payload s\<rparr>"

lemma build_some:
  assumes "tx_in_flight s \<or> read_buffer s \<noteq> []"
  shows "BuildNextDataFrameLocked s = (True, data_frame (in_flight s), in_flight s)"
  using assms
  by (auto simp: BuildNextDataFrameLocked_def in_flight_def data_frame_def empty_frame_def Let_def
      GetTransferSize_def ack_value_def PendingHintLocked_def take_min_length split: list.splits)

lemma in_flight_frame [frame_simps]:
  "read_buffer (in_flight s) = read_buffer s" "next_tx_seq (in_flight s) = next_tx_seq s"
  "frame_buffer (in_flight s) = frame_buffer s" "last_rx_seq (in_flight s) = last_rx_seq s"
  "tun_out (in_flight s) = tun_out s" "dev_ops (in_flight s) = dev_ops s"
  "irq_line (in_flight s) = irq_line s" "link.more (in_flight s) = link.more s"
  "tx_in_flight (in_flight s) = True" "running (in_flight s) = running s"
  by (simp_all add: in_flight_def)

lemma link_wf_in_flight: "link_wf s \<Longrightarrow> read_buffer s \<noteq> [] \<Longrightarrow> link_wf (in_flight s)"
  by (auto simp: link_wf_def in_flight_def)

lemma data_frame_wf:
  assumes "link_wf s" and "tx_in_flight s"
  shows "frame_wf (data_frame s)"
  using assms by (simp add: frame_wf_def data_frame_def link_wf_def)

text \<open>Acknowledging the fragment in flight removes it from the queue.\<close>

lemma commit_current:
  assumes "link_wf s" and "tx_in_flight s" and "read_buffer s = p # ps"
  shows "CommitAckLocked (next_tx_seq s) s =
    s\<lparr>read_buffer := (if length p \<le> 27 then ps else drop 27 p # ps), tx_in_flight := False,
      tx_inflight_seq := 0, tx_inflight_bytes_left := 0, tx_inflight_payload := [],
      next_tx_seq := NextSeq (next_tx_seq s)\<rparr>"
proof -
  have "drop (min (length p) (min (length p) 27)) p = drop 27 p"
    by (simp add: min_def)
  with assms show ?thesis
    by (simp add: CommitAckLocked_def link_wf_def AdvanceTxSeq_NextSeq Let_def)
qed

lemma commit_other_ack:
  "link_wf s \<Longrightarrow> \<not> tx_in_flight s \<or> a \<noteq> next_tx_seq s \<Longrightarrow> CommitAckLocked a s = s"
  by (auto simp: CommitAckLocked_def link_wf_def)

text \<open>The receiver on the three kinds of DATA frames: repeated, expected, out of order.\<close>

lemma consume_duplicate:
  "last_rx_seq s = Some (seq f) \<Longrightarrow> seq f \<noteq> 0 \<Longrightarrow> ConsumeDataFrameLocked f s = (True, s)"
  by (simp add: ConsumeDataFrameLocked_def)

definition accept_fragment :: "MacFrame \<Rightarrow> 'a link_scheme \<Rightarrow> 'a link_scheme" where
  "accept_fragment f s =
     (let s = s\<lparr>last_rx_seq := Some (seq f), frame_buffer := frame_buffer s @ payload f\<rparr> in
      if payload f \<noteq> [] \<and> unat (arg f) \<le> 27 then WriteTunnel s else s)"

lemma consume_expected:
  assumes "ftype f = Data" and "seq f \<noteq> 0"
    and "last_rx_seq s = None \<or> (\<exists>l. last_rx_seq s = Some l \<and> seq f \<noteq> l \<and> seq f = NextSeq l)"
  shows "ConsumeDataFrameLocked f s = (True, accept_fragment f s)"
  using assms
  by (auto simp: ConsumeDataFrameLocked_def accept_fragment_def Let_def)

lemma consume_out_of_order:
  assumes "ftype f = Data"
    and "seq f = 0 \<or> (\<exists>l. last_rx_seq s = Some l \<and> seq f \<noteq> l \<and> seq f \<noteq> NextSeq l)"
  shows "ConsumeDataFrameLocked f s = (False, ResetRxAssemblyLocked s)"
  using assms by (auto simp: ConsumeDataFrameLocked_def)

section \<open>Properties\<close>

lemma AdvanceTxSeq_eq: "AdvanceTxSeq s = s\<lparr>next_tx_seq := NextSeq (next_tx_seq s)\<rparr>"
proof (cases "seq_ok (next_tx_seq s)")
  case True
  then show ?thesis by (rule AdvanceTxSeq_NextSeq)
next
  case False
  show ?thesis
  proof (cases "next_tx_seq s = 255")
    case True
    then show ?thesis by (simp add: AdvanceTxSeq_def NextSeq_def)
  next
    case neq: False
    then have "unat (next_tx_seq s) < 255"
      using unat_u8_less [of "next_tx_seq s"] by (simp add: u8_eq_unat)
    then have "unat (next_tx_seq s + 1) = Suc (unat (next_tx_seq s))"
      by (intro unat_u8_Suc) simp
    then show ?thesis
      using False by (auto simp: AdvanceTxSeq_def Let_def NextSeq_def seq_ok_unat u8_eq_unat
          u8_less_unat u8_le_unat)
  qed
qed

lemma unat_NextSeq_funpow:
  "seq_ok q \<Longrightarrow> unat ((NextSeq ^^ n) q) = (unat q - 1 + n) mod 31 + 1"
proof (induction n)
  case 0
  then have "unat q - 1 < 31" "1 \<le> unat q"
    by (auto simp: seq_ok_unat)
  then show ?case by simp
next
  case (Suc n)
  define m where "m = (unat q - 1 + n) mod 31"
  have "m < 31" "unat ((NextSeq ^^ n) q) = m + 1"
    using Suc by (simp_all add: m_def)
  moreover have "(unat q - 1 + Suc n) mod 31 = (if Suc m = 31 then 0 else Suc m)"
    by (simp add: m_def mod_Suc)
  ultimately show ?case by (simp add: unat_NextSeq)
qed

text \<open>Sequence numbers run through the cycle 1..31: a valid number comes back
  after 31 steps and not before, 0 (which the acknowledgement field uses for \<open>none\<close>) is never
  produced, and the sender's \<open>AdvanceTxSeq\<close> is the same function as the receiver's \<open>NextSeq\<close>,
  from every byte.\<close>

lemma sequence_cycle:
  assumes "seq_ok q"
  shows "((NextSeq ^^ n) q = q \<longleftrightarrow> 31 dvd n) \<and> (NextSeq ^^ n) q \<noteq> kNoSeq \<and>
    AdvanceTxSeq s = s\<lparr>next_tx_seq := NextSeq (next_tx_seq s)\<rparr>"
proof -
  have q: "1 \<le> unat q" "unat q \<le> 31"
    using assms by (simp_all add: seq_ok_unat)
  have "(unat q - 1 + n) mod 31 = (unat q - 1) mod 31 \<longleftrightarrow> 31 dvd n"
    using mod_eq_dvd_iff_nat [of "unat q - 1" "unat q - 1 + n" 31] by simp
  moreover have "(unat q - 1) mod 31 = unat q - 1"
    using q by simp
  ultimately have "(unat q - 1 + n) mod 31 + 1 = unat q \<longleftrightarrow> 31 dvd n"
    using q by linarith
  then have "(NextSeq ^^ n) q = q \<longleftrightarrow> 31 dvd n"
    using unat_NextSeq_funpow [OF assms, of n] by (simp add: u8_eq_unat)
  moreover have "(NextSeq ^^ n) q \<noteq> 0"
    using unat_NextSeq_funpow [OF assms, of n] by (simp add: u8_eq_unat)
  ultimately show ?thesis
    by (simp add: AdvanceTxSeq_eq kNoSeq_def)
qed

text \<open>C12. Every operation of the base class keeps the link well formed:
  the constructor establishes it, and building a frame, committing an acknowledgement, consuming a
  frame, writing the tunnel, clearing the session and every step of the tunnel thread keep it,
  whatever frame or packet arrives.\<close>

theorem operations_keep_link_wf:
  "link_wf (RadioInterface_init pin) \<and>
   (link_wf s \<longrightarrow>
      link_wf (snd (snd (BuildNextDataFrameLocked s))) \<and> link_wf (CommitAckLocked a s) \<and>
      link_wf (snd (ConsumeDataFrameLocked f s)) \<and> link_wf (WriteTunnel s) \<and>
      link_wf (clear_session s) \<and> link_wf (snd (TunnelThread_step input (pc, s))))"
proof -
  have build: "link_wf (snd (snd (BuildNextDataFrameLocked s)))" if "link_wf s"
    using that build_none [of s] build_some [of s] link_wf_in_flight [of s]
    by (cases "tx_in_flight s"; cases "read_buffer s = []") (simp_all add: in_flight_def)
  have tunnel: "link_wf (snd (TunnelThread_step input (pc, s)))" if "link_wf s"
  proof (cases pc)
    case Tunnel_loop
    then show ?thesis
      using that by simp
  next
    case Tunnel_read
    then show ?thesis
      using that link_wf_push [of s] valid_packet_nonempty by (auto simp: Let_def split: option.split)
  next
    case Tunnel_throttle
    then show ?thesis
      using that by (simp add: link_wf_def dev_def)
  next
    case Tunnel_done
    then show ?thesis
      using that by simp
  qed
  show ?thesis
    using build tunnel link_wf_init link_wf_commit link_wf_consume link_wf_WriteTunnel
      link_wf_clear by blast
qed

theorem operations_keep_link_wf_witness:
  "link_wf (CommitAckLocked 1 (snd (snd (BuildNextDataFrameLocked
     (tunnel_push (replicate 40 7) (RadioInterface_init 0))))))"
proof -
  have "link_wf (tunnel_push (replicate 40 7) (RadioInterface_init 0))"
    using operations_keep_link_wf [of 0 "RadioInterface_init 0"] by (intro link_wf_push) simp_all
  then show ?thesis
    using operations_keep_link_wf by blast
qed

text \<open>C20. Building the next frame again, before its acknowledgement,
  gives the same frame and changes nothing, even if the tunnel thread queued packets in between; and
  a receiver that gets an accepted DATA frame a second time accepts it and changes nothing.\<close>

theorem retransmission_idempotent:
  assumes "BuildNextDataFrameLocked s = (True, f, s')"
  shows "BuildNextDataFrameLocked s' = (True, f, s') \<and>
    (let g = fst (snd (BuildNextDataFrameLocked (fold tunnel_push ps s'))) in
       (seq g, ack g, arg g, payload g) = (seq f, ack f, arg f, payload f)) \<and>
    (ConsumeDataFrameLocked h r = (True, r') \<longrightarrow> ConsumeDataFrameLocked h r' = (True, r'))"
proof -
  have busy: "tx_in_flight s \<or> read_buffer s \<noteq> []"
    using assms by (auto simp: BuildNextDataFrameLocked_def split: if_splits list.splits)
  from build_some [OF this] assms have s': "s' = in_flight s" and f: "f = data_frame (in_flight s)"
    by (metis prod.inject)+
  have "in_flight (in_flight s) = in_flight s"
    by (simp add: in_flight_def)
  then have again: "BuildNextDataFrameLocked s' = (True, f, s')"
    using build_some [of "in_flight s"] unfolding s' f by (simp add: frame_simps)
  have push: "tx_in_flight (fold tunnel_push ps t) = tx_in_flight t"
    "tx_inflight_seq (fold tunnel_push ps t) = tx_inflight_seq t"
    "tx_inflight_bytes_left (fold tunnel_push ps t) = tx_inflight_bytes_left t"
    "tx_inflight_payload (fold tunnel_push ps t) = tx_inflight_payload t"
    "last_rx_seq (fold tunnel_push ps t) = last_rx_seq t" for t :: "'a link_scheme"
    by (induction ps arbitrary: t) (simp_all add: tunnel_push_def)
  have fl: "tx_in_flight (fold tunnel_push ps s')"
    by (simp add: push s' frame_simps)
  then have "in_flight (fold tunnel_push ps s') = fold tunnel_push ps s'"
    by (simp add: in_flight_def)
  then have "fst (snd (BuildNextDataFrameLocked (fold tunnel_push ps s')))
      = data_frame (fold tunnel_push ps s')"
    using build_some [of "fold tunnel_push ps s'"] fl by simp
  then have "let g = fst (snd (BuildNextDataFrameLocked (fold tunnel_push ps s'))) in
       (seq g, ack g, arg g, payload g) = (seq f, ack f, arg f, payload f)"
    by (simp add: Let_def data_frame_def f s' push ack_value_def)
  moreover have "ConsumeDataFrameLocked h r' = (True, r')" if "ConsumeDataFrameLocked h r = (True, r')"
  proof (cases "ftype h = Data")
    case True
    have "last_rx_seq r' = Some (seq h) \<and> seq h \<noteq> 0"
      using that True by (auto simp: ConsumeDataFrameLocked_def Let_def WriteTunnel_def
          split: if_splits option.splits)
    then show ?thesis
      using consume_duplicate by blast
  next
    case False
    then show ?thesis
      using that by (simp add: ConsumeDataFrameLocked_def)
  qed
  ultimately show ?thesis
    using again by blast
qed

theorem retransmission_idempotent_witness:
  "let s = tunnel_push [1, 2, 3] (RadioInterface_init 0); b = BuildNextDataFrameLocked s in
     BuildNextDataFrameLocked (snd (snd b)) = b"
proof -
  define b where "b = BuildNextDataFrameLocked (tunnel_push [1, 2, 3] (RadioInterface_init 0))"
  have "fst b"
    by (simp add: b_def BuildNextDataFrameLocked_def tunnel_push_def RadioInterface_init_def Let_def)
  then have eq: "BuildNextDataFrameLocked (tunnel_push [1, 2, 3] (RadioInterface_init 0))
      = (True, fst (snd b), snd (snd b))"
    by (simp add: b_def prod_eq_iff)
  from retransmission_idempotent [OF eq, of "[]" empty_frame "RadioInterface_init 0"] eq
  show ?thesis
    by (simp add: Let_def)
qed

text \<open>C14. The acknowledgement of the fragment in flight removes exactly
  that fragment from the front of the queued bytes and frees the sender; any other acknowledgement
  changes nothing.\<close>

theorem commit_removes_sent_bytes:
  assumes "link_wf s"
  shows "(tx_in_flight s \<longrightarrow>
       concat (read_buffer s) = tx_inflight_payload s @ concat (read_buffer (CommitAckLocked (next_tx_seq s) s)) \<and>
       tx_inflight_payload s \<noteq> [] \<and> \<not> tx_in_flight (CommitAckLocked (next_tx_seq s) s)) \<and>
    (\<not> tx_in_flight s \<or> a \<noteq> next_tx_seq s \<longrightarrow> CommitAckLocked a s = s)"
proof -
  have "concat (read_buffer s) = tx_inflight_payload s @ concat (read_buffer (CommitAckLocked (next_tx_seq s) s)) \<and>
       tx_inflight_payload s \<noteq> [] \<and> \<not> tx_in_flight (CommitAckLocked (next_tx_seq s) s)"
    if fl: "tx_in_flight s"
  proof -
    obtain p ps where rb: "read_buffer s = p # ps"
      using assms fl by (cases "read_buffer s") (auto simp: link_wf_def)
    then have "tx_inflight_payload s = take 27 p" "p \<noteq> []"
      using assms fl by (auto simp: link_wf_def)
    then show ?thesis
      by (simp add: commit_current [OF assms fl rb] rb)
  qed
  then show ?thesis
    using commit_other_ack [OF assms] by blast
qed

theorem commit_removes_sent_bytes_witness:
  "let s = in_flight (tunnel_push (replicate 40 7) (RadioInterface_init 0)) in
     concat (read_buffer s) = tx_inflight_payload s @ concat (read_buffer (CommitAckLocked 1 s))"
proof -
  let ?s = "in_flight (tunnel_push (replicate 40 7) (RadioInterface_init 0))"
  have "link_wf ?s"
    by (intro link_wf_in_flight link_wf_push link_wf_init) (simp_all add: tunnel_push_def)
  moreover have "next_tx_seq ?s = 1"
    by (simp add: frame_simps tunnel_push_def RadioInterface_init_def)
  ultimately show ?thesis
    using commit_removes_sent_bytes [of ?s] by (simp add: Let_def frame_simps)
qed

text \<open>C13. \<open>ConsumeDataFrameLocked\<close> accepts a DATA frame exactly when it repeats
  the last accepted number or \<open>IsExpectedRxSeq\<close> holds; a refused frame drops the partial packet and
  the sequence state and writes nothing, a repeated one changes nothing, and an expected one becomes
  the last accepted number.\<close>

theorem consume_decision:
  assumes data: "ftype f = Data"
  shows "(fst (ConsumeDataFrameLocked f s) \<longleftrightarrow>
      IsExpectedRxSeq s (seq f) \<or> (seq f \<noteq> 0 \<and> last_rx_seq s = Some (seq f))) \<and>
    (\<not> fst (ConsumeDataFrameLocked f s) \<longrightarrow>
      snd (ConsumeDataFrameLocked f s) = s\<lparr>frame_buffer := [], last_rx_seq := None\<rparr>) \<and>
    (seq f \<noteq> 0 \<and> last_rx_seq s = Some (seq f) \<longrightarrow> snd (ConsumeDataFrameLocked f s) = s) \<and>
    (fst (ConsumeDataFrameLocked f s) \<longrightarrow>
      last_rx_seq (snd (ConsumeDataFrameLocked f s)) = Some (seq f))"
proof -
  consider (repeated) "seq f \<noteq> 0" "last_rx_seq s = Some (seq f)"
    | (expected) "seq f \<noteq> 0"
        "last_rx_seq s = None \<or> (\<exists>l. last_rx_seq s = Some l \<and> seq f \<noteq> l \<and> seq f = NextSeq l)"
    | (gap) "seq f = 0 \<or> (\<exists>l. last_rx_seq s = Some l \<and> seq f \<noteq> l \<and> seq f \<noteq> NextSeq l)"
    by (metis option.exhaust)
  then show ?thesis
  proof cases
    case repeated
    then show ?thesis by (simp add: consume_duplicate)
  next
    case expected
    then have "last_rx_seq s \<noteq> Some (seq f)" "IsExpectedRxSeq s (seq f)"
      by (auto simp: IsExpectedRxSeq_def)
    moreover have "last_rx_seq (accept_fragment f s) = Some (seq f)"
      by (simp add: accept_fragment_def Let_def WriteTunnel_def)
    ultimately show ?thesis
      using consume_expected [OF data expected] by simp
  next
    case gap
    then have "\<not> IsExpectedRxSeq s (seq f)" "\<not> (seq f \<noteq> 0 \<and> last_rx_seq s = Some (seq f))"
      by (auto simp: IsExpectedRxSeq_def)
    then show ?thesis
      using consume_out_of_order [OF data gap] by (auto simp: ResetRxAssemblyLocked_def)
  qed
qed

theorem consume_decision_witness:
  "\<not> fst (ConsumeDataFrameLocked (empty_frame\<lparr>ftype := Data, seq := 7\<rparr>)
         ((RadioInterface_init 0)\<lparr>last_rx_seq := Some 5, frame_buffer := [69]\<rparr>)) \<and>
   fst (ConsumeDataFrameLocked (empty_frame\<lparr>ftype := Data, seq := 6\<rparr>)
         ((RadioInterface_init 0)\<lparr>last_rx_seq := Some 5, frame_buffer := [69]\<rparr>))"
  using consume_decision [of "empty_frame\<lparr>ftype := Data, seq := 7\<rparr>"
      "(RadioInterface_init 0)\<lparr>last_rx_seq := Some 5, frame_buffer := [69]\<rparr>"]
    consume_decision [of "empty_frame\<lparr>ftype := Data, seq := 6\<rparr>"
      "(RadioInterface_init 0)\<lparr>last_rx_seq := Some 5, frame_buffer := [69]\<rparr>"]
  by (simp add: IsExpectedRxSeq_def NextSeq_def)

end
