(* ===== verification/Irq.thy ===== *)
theory Irq
  imports Link_State
begin

text \<open>
  The interrupt line of \<open>radio_interface.cc\<close>: resolving \<open>--irq_pin\<close> to a line of a GPIO chip
  (\<open>ResolveIrqTarget\<close> and the functions it uses), and \<open>InitializeIrq\<close>, \<open>CleanupIrq\<close> and the destructor
  of \<open>RadioInterface\<close>. What the calls acquire and release is checked by \<open>gpio_run\<close>.

  The chips libgpiod enumerates, what its calls answer, and the directory \<open>/sys/class/gpio\<close> are the
  argument \<open>gpio_sys\<close>; they do not change while a pin is resolved. A directory that cannot be opened
  makes the constructor of \<open>directory_iterator\<close> throw, and the sum of two \<open>int\<close> values may overflow;
  both are values of \<open>irq_exn\<close>.
\<close>

section \<open>The outside world\<close>

record gpio_chip =
  chip_name :: "string option"
  chip_label :: "string option"
  chip_lines :: u32

text \<open>An entry of the directory, with the contents of its three files, \<open>None\<close> if not readable.\<close>

record sysfs_entry =
  entry_is_directory :: bool
  entry_name :: string
  base_file :: "string option"
  ngpio_file :: "string option"
  label_file :: "string option"

record gpio_sys =
  gpiod_chips :: "gpio_chip list option"
  sysfs_gpio :: "sysfs_entry list option"
  open_by_name :: "string \<Rightarrow> bool"
  get_line :: "string \<Rightarrow> u32 \<Rightarrow> bool"
  request_events :: "string \<Rightarrow> u32 \<Rightarrow> bool"

datatype irq_exn = Filesystem_error | Signed_overflow

section \<open>Reading files\<close>

definition int_ok :: "int \<Rightarrow> bool" where
  "int_ok n \<longleftrightarrow> - (2 ^ 31) \<le> n \<and> n < 2 ^ 31"

definition is_space :: "char \<Rightarrow> bool" where
  "is_space c \<longleftrightarrow> (of_char c :: nat) = 32 \<or> 9 \<le> (of_char c :: nat) \<and> (of_char c :: nat) \<le> 13"

definition is_digit :: "char \<Rightarrow> bool" where
  "is_digit c \<longleftrightarrow> 48 \<le> (of_char c :: nat) \<and> (of_char c :: nat) \<le> 57"

definition digit_value :: "char \<Rightarrow> int" where
  "digit_value c = int (of_char c) - 48"

definition decimal_value :: "string \<Rightarrow> int" where
  "decimal_value ds = foldl (\<lambda>n c. 10 * n + digit_value c) 0 ds"

text \<open>The formatted extraction \<open>stream >> value\<close> of an \<open>int\<close>: blanks, a sign, digits; no digits or a
  value out of range is a failure.\<close>

definition extract_int :: "string \<Rightarrow> int option" where
  "extract_int text =
     (let rest = dropWhile is_space text;
          negative = (rest \<noteq> [] \<and> hd rest = CHR ''-'');
          rest = (if rest \<noteq> [] \<and> (hd rest = CHR ''-'' \<or> hd rest = CHR ''+'') then tl rest else rest);
          ds = takeWhile is_digit rest;
          value = (if negative then - decimal_value ds else decimal_value ds)
      in if ds = [] \<or> \<not> int_ok value then None else Some value)"

definition ReadIntFile :: "string option \<Rightarrow> int option" where
  "ReadIntFile contents = (case contents of None \<Rightarrow> None | Some text \<Rightarrow> extract_int text)"

definition ReadTextFile :: "string option \<Rightarrow> string" where
  "ReadTextFile contents =
     (case contents of None \<Rightarrow> [] | Some text \<Rightarrow> takeWhile (\<lambda>c. c \<noteq> CHR 0x0A) text)"

section \<open>Labels\<close>

definition tolower :: "char \<Rightarrow> char" where
  "tolower c = (let n = of_char c :: nat in if 65 \<le> n \<and> n \<le> 90 then char_of (n + 32) else c)"

definition ToLower :: "string \<Rightarrow> string" where
  "ToLower = map tolower"

text \<open>\<open>s.find(pat) != npos\<close>.\<close>

fun found :: "string \<Rightarrow> string \<Rightarrow> bool" where
  "found pat [] = (pat = [])"
| "found pat (c # cs) = (take (length pat) (c # cs) = pat \<or> found pat cs)"

definition IsPreferredGpioChipLabel :: "string \<Rightarrow> bool" where
  "IsPreferredGpioChipLabel label =
     (let lower = ToLower label in
      found ''pinctrl'' lower \<or> found ''raspberry'' lower \<or> found ''bcm'' lower \<or> found ''gpio'' lower)"

section \<open>Resolving the pin\<close>

record ResolvedIrqTarget =
  target_chip_name :: string
  target_chip_label :: string
  line_offset :: u32
  global_gpio :: int

fun find_chip :: "string \<Rightarrow> u32 \<Rightarrow> string option \<Rightarrow> gpio_chip list \<Rightarrow> string option" where
  "find_chip label num_lines fallback [] = fallback"
| "find_chip label num_lines fallback (chip # chips) =
     (case chip_name chip of
        None \<Rightarrow> find_chip label num_lines fallback chips
      | Some name \<Rightarrow>
          if chip_label chip = Some label \<and> chip_lines chip = num_lines then Some name
          else if chip_label chip = Some label \<and> fallback = None
          then find_chip label num_lines (Some name) chips
          else find_chip label num_lines fallback chips)"

definition FindChipNameByLabelAndLines :: "gpio_sys \<Rightarrow> string \<Rightarrow> u32 \<Rightarrow> string option" where
  "FindChipNameByLabelAndLines sys label num_lines =
     (case gpiod_chips sys of None \<Rightarrow> None | Some chips \<Rightarrow> find_chip label num_lines None chips)"

fun resolve_global ::
  "gpio_sys \<Rightarrow> int \<Rightarrow> sysfs_entry list \<Rightarrow> irq_exn + ResolvedIrqTarget option" where
  "resolve_global sys gpio [] = Inr None"
| "resolve_global sys gpio (entry # entries) =
     (if \<not> entry_is_directory entry then resolve_global sys gpio entries
      else if take 8 (entry_name entry) \<noteq> ''gpiochip'' then resolve_global sys gpio entries
      else case (ReadIntFile (base_file entry), ReadIntFile (ngpio_file entry)) of
        (Some base, Some ngpio) \<Rightarrow>
          if gpio < base then resolve_global sys gpio entries
          else if \<not> int_ok (base + ngpio) then Inl Signed_overflow
          else if gpio \<ge> base + ngpio then resolve_global sys gpio entries
          else
            let label = ReadTextFile (label_file entry) in
            (case FindChipNameByLabelAndLines sys label (word_of_int ngpio) of
               None \<Rightarrow> resolve_global sys gpio entries
             | Some name \<Rightarrow>
                 Inr (Some \<lparr>target_chip_name = name, target_chip_label = label,
                            line_offset = word_of_int (gpio - base), global_gpio = gpio\<rparr>))
      | _ \<Rightarrow> resolve_global sys gpio entries)"

definition ResolveIrqTargetFromGlobal :: "gpio_sys \<Rightarrow> int \<Rightarrow> irq_exn + ResolvedIrqTarget option" where
  "ResolveIrqTargetFromGlobal sys gpio =
     (case sysfs_gpio sys of
        None \<Rightarrow> Inl Filesystem_error
      | Some entries \<Rightarrow> resolve_global sys gpio entries)"

fun resolve_offset ::
  "int \<Rightarrow> ResolvedIrqTarget option \<Rightarrow> gpio_chip list \<Rightarrow> ResolvedIrqTarget option" where
  "resolve_offset offset fallback [] = fallback"
| "resolve_offset offset fallback (chip # chips) =
     (if offset < 0 \<or> (word_of_int offset :: u32) \<ge> chip_lines chip
      then resolve_offset offset fallback chips
      else case chip_name chip of
        None \<Rightarrow> resolve_offset offset fallback chips
      | Some name \<Rightarrow>
          let target = \<lparr>target_chip_name = name,
                target_chip_label = (case chip_label chip of None \<Rightarrow> [] | Some label \<Rightarrow> label),
                line_offset = word_of_int offset, global_gpio = -1\<rparr>
          in if IsPreferredGpioChipLabel (target_chip_label target) then Some target
             else if fallback = None then resolve_offset offset (Some target) chips
             else resolve_offset offset fallback chips)"

definition ResolveIrqTargetFromOffset :: "gpio_sys \<Rightarrow> int \<Rightarrow> ResolvedIrqTarget option" where
  "ResolveIrqTargetFromOffset sys offset =
     (case gpiod_chips sys of None \<Rightarrow> None | Some chips \<Rightarrow> resolve_offset offset None chips)"

definition ResolveIrqTarget :: "gpio_sys \<Rightarrow> int \<Rightarrow> irq_exn + ResolvedIrqTarget option" where
  "ResolveIrqTarget sys pin =
     (if pin < 0 then Inr None
      else case ResolveIrqTargetFromGlobal sys pin of
        Inl e \<Rightarrow> Inl e
      | Inr (Some target) \<Rightarrow> Inr (Some target)
      | Inr None \<Rightarrow> Inr (ResolveIrqTargetFromOffset sys pin))"

section \<open>The members of the interface\<close>

text \<open>Calls that acquire and release what the process holds of the GPIO system.\<close>

datatype gpio_op = Chip_open string | Chip_close | Line_get u32 | Events_requested u32 | Line_release

definition CleanupIrq :: "'a link_scheme \<Rightarrow> gpio_op list \<times> 'a link_scheme" where
  "CleanupIrq s =
     ((if irq_line s \<noteq> None then [Line_release] else []) @
      (if irq_chip s \<noteq> None then [Chip_close] else []),
      s\<lparr>irq_line := None, irq_chip := None, resolved_irq_chip_name := [],
        resolved_irq_line_offset := 0, resolved_irq_global_gpio := -1\<rparr>)"

definition InitializeIrq ::
  "gpio_sys \<Rightarrow> 'a link_scheme \<Rightarrow> irq_exn + (bool \<times> gpio_op list \<times> 'a link_scheme)" where
  "InitializeIrq sys s =
     (if irq_pin s < 0 then Inr (False, [], s)
      else case ResolveIrqTarget sys (irq_pin s) of
        Inl e \<Rightarrow> Inl e
      | Inr None \<Rightarrow> Inr (False, [], s)
      | Inr (Some target) \<Rightarrow>
          let name = target_chip_name target; offset = line_offset target in
          if \<not> open_by_name sys name then Inr (False, [], s\<lparr>irq_chip := None\<rparr>)
          else
            let s = s\<lparr>irq_chip := Some name\<rparr> in
            if \<not> get_line sys name offset then
              (case CleanupIrq (s\<lparr>irq_line := None\<rparr>) of
                 (ops, s) \<Rightarrow> Inr (False, Chip_open name # ops, s))
            else
              let s = s\<lparr>irq_line := Some offset\<rparr> in
              if \<not> request_events sys name offset then
                (case CleanupIrq s of (ops, s) \<Rightarrow> Inr (False, Chip_open name # Line_get offset # ops, s))
              else
                Inr (True, [Chip_open name, Line_get offset, Events_requested offset],
                     s\<lparr>resolved_irq_chip_name := name, resolved_irq_line_offset := offset,
                       resolved_irq_global_gpio := global_gpio target\<rparr>))"

text \<open>
  The destructor: it clears \<open>running_\<close>, waits in \<open>join\<close> until the tunnel thread, wherever it is in its
  loop, has left it, and releases the interrupt line. \<open>inputs\<close> are what the thread's remaining steps
  read; \<open>None\<close> is a destructor that is still waiting after these steps.
\<close>

definition RadioInterface_destroy ::
  "bytes option list \<Rightarrow> tunnel_pc \<times> 'a link_scheme \<Rightarrow> (gpio_op list \<times> 'a link_scheme) option" where
  "RadioInterface_destroy inputs thread =
     (case fold TunnelThread_step inputs (fst thread, (snd thread)\<lparr>running := False\<rparr>) of
        (pc, s) \<Rightarrow> if pc \<noteq> Tunnel_done then None else Some (CleanupIrq s))"

section \<open>Lemmas\<close>

text \<open>Searching with a fallback is taking the first match, or else the first fallback.\<close>

definition exact_chip :: "string \<Rightarrow> u32 \<Rightarrow> gpio_chip \<Rightarrow> bool" where
  "exact_chip label n c \<longleftrightarrow> chip_name c \<noteq> None \<and> chip_label c = Some label \<and> chip_lines c = n"

definition labelled_chip :: "string \<Rightarrow> gpio_chip \<Rightarrow> bool" where
  "labelled_chip label c \<longleftrightarrow> chip_name c \<noteq> None \<and> chip_label c = Some label"

lemma find_chip_Cons:
  "find_chip label n fallback (c # cs) =
     (if exact_chip label n c then chip_name c
      else find_chip label n (if labelled_chip label c \<and> fallback = None then chip_name c else fallback) cs)"
  by (cases "chip_name c") (auto simp: exact_chip_def labelled_chip_def)

lemma find_chip_eq:
  "find_chip label n fallback chips =
     (case find (exact_chip label n) chips of
        Some c \<Rightarrow> chip_name c
      | None \<Rightarrow>
          if fallback \<noteq> None then fallback else Option.bind (find (labelled_chip label) chips) chip_name)"
proof (induction chips arbitrary: fallback)
  case (Cons c cs)
  have "labelled_chip label c \<Longrightarrow> chip_name c \<noteq> None"
    by (simp add: labelled_chip_def)
  then show ?case
    by (auto simp: find_chip_Cons Cons simp del: find_chip.simps(2) split: option.split)
qed simp

lemma find_SomeD: "find P xs = Some x \<Longrightarrow> x \<in> set xs \<and> P x"
  by (induction xs) (auto split: if_splits)

definition in_range :: "int \<Rightarrow> gpio_chip \<Rightarrow> bool" where
  "in_range offset c \<longleftrightarrow> 0 \<le> offset \<and> (word_of_int offset :: u32) < chip_lines c \<and> chip_name c \<noteq> None"

definition label_text :: "gpio_chip \<Rightarrow> string" where
  "label_text c = (case chip_label c of None \<Rightarrow> [] | Some label \<Rightarrow> label)"

definition offset_target :: "int \<Rightarrow> gpio_chip \<Rightarrow> ResolvedIrqTarget" where
  "offset_target offset c =
     \<lparr>target_chip_name = the (chip_name c), target_chip_label = label_text c,
      line_offset = word_of_int offset, global_gpio = -1\<rparr>"

lemma resolve_offset_eq:
  "resolve_offset offset fallback chips =
     (case find (\<lambda>c. in_range offset c \<and> IsPreferredGpioChipLabel (label_text c)) chips of
        Some c \<Rightarrow> Some (offset_target offset c)
      | None \<Rightarrow>
          if fallback \<noteq> None then fallback
          else map_option (offset_target offset) (find (in_range offset) chips))"
proof (induction chips arbitrary: fallback)
  case Nil
  show ?case by (cases fallback) simp_all
next
  case (Cons c chips)
  have step: "resolve_offset offset fallback (c # chips) =
      (if \<not> in_range offset c then resolve_offset offset fallback chips
       else if IsPreferredGpioChipLabel (label_text c) then Some (offset_target offset c)
       else if fallback = None then resolve_offset offset (Some (offset_target offset c)) chips
       else resolve_offset offset fallback chips)"
  proof (cases "in_range offset c")
    case True
    then obtain name where "chip_name c = Some name" "\<not> offset < 0"
        "\<not> chip_lines c \<le> (word_of_int offset :: u32)"
      by (auto simp: in_range_def not_le)
    with True show ?thesis
      by (simp add: offset_target_def label_text_def Let_def)
  next
    case False
    then have "offset < 0 \<or> (word_of_int offset :: u32) \<ge> chip_lines c \<or> chip_name c = None"
      by (auto simp: in_range_def not_le not_less)
    with False show ?thesis
      by (cases "chip_name c") auto
  qed
  show ?case
    by (simp only: step Cons.IH) (cases fallback; simp split: option.split)
qed

lemma ReadIntFile_range: "ReadIntFile contents = Some n \<Longrightarrow> int_ok n"
  by (auto simp: ReadIntFile_def extract_int_def Let_def split: option.splits if_splits)

text \<open>A pin found in a range \<open>base..<base + ngpio\<close> of global numbers.\<close>

definition global_match :: "sysfs_entry \<Rightarrow> int \<Rightarrow> ResolvedIrqTarget \<Rightarrow> bool" where
  "global_match entry pin t \<longleftrightarrow> entry_is_directory entry \<and>
     (\<exists>base ngpio. ReadIntFile (base_file entry) = Some base \<and>
       ReadIntFile (ngpio_file entry) = Some ngpio \<and>
       base + uint (line_offset t) = pin \<and> uint (line_offset t) < ngpio \<and> global_gpio t = pin)"

lemma resolve_global_step:
  assumes "resolve_global sys pin (entry # entries) = Inr (Some t)"
    and "resolve_global sys pin entries \<noteq> Inr (Some t)"
  shows "global_match entry pin t"
proof -
  from assms obtain base ngpio where
    r: "ReadIntFile (base_file entry) = Some base" "ReadIntFile (ngpio_file entry) = Some ngpio"
      "entry_is_directory entry" "base \<le> pin" "pin < base + ngpio"
    and t: "line_offset t = word_of_int (pin - base)" "global_gpio t = pin"
    by (auto simp: Let_def split: if_splits option.splits)
  have "uint (word_of_int (pin - base) :: u32) = pin - base"
    using r ReadIntFile_range [OF r(2)]
    by (simp add: uint_word_of_int int_ok_def del: of_int_diff)
  with r t show ?thesis
    unfolding global_match_def by simp
qed

lemma resolve_global_match:
  "resolve_global sys pin entries = Inr (Some t) \<Longrightarrow> \<exists>entry \<in> set entries. global_match entry pin t"
proof (induction entries)
  case (Cons entry entries)
  then show ?case
    using resolve_global_step [OF Cons.prems] by (auto simp del: resolve_global.simps)
qed simp

section \<open>Printing and reading numbers\<close>

text \<open>How the kernel prints the two numbers: decimal, with a sign if negative.\<close>

fun decimal_nat :: "nat \<Rightarrow> string" where
  "decimal_nat n = (if n < 10 then [char_of (48 + n)]
     else decimal_nat (n div 10) @ [char_of (48 + n mod 10)])"

definition decimal :: "int \<Rightarrow> string" where
  "decimal n = (if n < 0 then CHR ''-'' # decimal_nat (nat (- n)) else decimal_nat (nat n))"

declare decimal_nat.simps [simp del]

lemma digit_char: "n < 10 \<Longrightarrow> is_digit (char_of (48 + n)) \<and> digit_value (char_of (48 + n)) = int n"
  by (simp add: is_digit_def digit_value_def of_char_of)

lemma decimal_nat_digits: "list_all is_digit (decimal_nat n) \<and> decimal_nat n \<noteq> []"
proof (induction n rule: decimal_nat.induct)
  case (1 n)
  then show ?case
    using decimal_nat.simps [of n] digit_char [of n] digit_char [of "n mod 10"] by auto
qed

lemma decimal_nat_value: "decimal_value (decimal_nat n) = int n"
proof (induction n rule: decimal_nat.induct)
  case (1 n)
  show ?case
  proof (cases "n < 10")
    case True
    then show ?thesis
      using digit_char [OF True] by (simp add: decimal_nat.simps [of n] decimal_value_def)
  next
    case False
    with 1 have "decimal_value (decimal_nat n) = 10 * int (n div 10) + int (n mod 10)"
      using digit_char [of "n mod 10"] by (simp add: decimal_nat.simps [of n] decimal_value_def)
    then show ?thesis by presburger
  qed
qed

lemma digit_not_special: "is_digit c \<Longrightarrow> \<not> is_space c \<and> c \<noteq> CHR ''-'' \<and> c \<noteq> CHR ''+''"
  by (auto simp: is_digit_def is_space_def)

lemma decimal_nat_hd: "is_digit (hd (decimal_nat n))"
  using decimal_nat_digits [of n] by (cases "decimal_nat n") auto

lemma takeWhile_decimal: "takeWhile is_digit (decimal_nat n @ [CHR 0x0A]) = decimal_nat n"
  using decimal_nat_digits [of n] by (simp add: list_all_iff is_digit_def)

lemma drop_spaces: "xs \<noteq> [] \<Longrightarrow> \<not> is_space (hd xs) \<Longrightarrow> dropWhile is_space (xs @ ys) = xs @ ys"
  by (cases xs) auto

section \<open>What the calls acquire and release\<close>

text \<open>
  What the process holds: the open chip, the line, and whether events are requested on it. Every
  resource has to be acquired before it is used and released once, the line before the chip; calls
  out of this order have no result.
\<close>

type_synonym gpio_held = "string option \<times> u32 option \<times> bool"

fun gpio_run :: "gpio_op list \<Rightarrow> gpio_held \<Rightarrow> gpio_held option" where
  "gpio_run [] held = Some held"
| "gpio_run (Chip_open name # ops) (chip, line, events) =
     (if chip = None then gpio_run ops (Some name, None, False) else None)"
| "gpio_run (Line_get offset # ops) (chip, line, events) =
     (if chip \<noteq> None \<and> line = None then gpio_run ops (chip, Some offset, False) else None)"
| "gpio_run (Events_requested offset # ops) (chip, line, events) =
     (if line = Some offset \<and> \<not> events then gpio_run ops (chip, line, True) else None)"
| "gpio_run (Line_release # ops) (chip, line, events) =
     (if line \<noteq> None then gpio_run ops (chip, None, False) else None)"
| "gpio_run (Chip_close # ops) (chip, line, events) =
     (if chip \<noteq> None \<and> line = None then gpio_run ops (None, None, False) else None)"

lemma gpio_run_append: "gpio_run (xs @ ys) held = Option.bind (gpio_run xs held) (gpio_run ys)"
  by (induction xs held rule: gpio_run.induct) auto

text \<open>\<open>CleanupIrq\<close> releases what the two pointers record.\<close>

lemma CleanupIrq_releases:
  assumes "irq_line s \<noteq> None \<longrightarrow> irq_chip s \<noteq> None"
  shows "gpio_run (fst (CleanupIrq s)) (irq_chip s, irq_line s, events \<and> irq_line s \<noteq> None)
    = Some (None, None, False)"
  using assms by (cases "irq_line s"; cases "irq_chip s") (simp_all add: CleanupIrq_def)

lemma CleanupIrq_fields:
  "irq_line (snd (CleanupIrq s)) = None" "irq_chip (snd (CleanupIrq s)) = None"
  "read_buffer (snd (CleanupIrq s)) = read_buffer s" "running (snd (CleanupIrq s)) = running s"
  by (simp_all add: CleanupIrq_def)

section \<open>The tunnel thread after \<open>running_\<close> was cleared\<close>

text \<open>What the return of \<open>read\<close> queues.\<close>

definition packet_read :: "bytes option \<Rightarrow> bytes list" where
  "packet_read input =
     (case input of
        None \<Rightarrow> []
      | Some bs \<Rightarrow> filter IsValidIpPacket [take kTunnelReadSize bs])"

lemma thread_done: "fold TunnelThread_step inputs (Tunnel_done, s) = (Tunnel_done, s)"
  by (induction inputs) simp_all

lemma thread_stops:
  assumes "\<not> running s" and "3 \<le> length inputs"
  shows "fold TunnelThread_step inputs (pc, s)
    = (Tunnel_done, s\<lparr>read_buffer := read_buffer s @
         (if pc = Tunnel_read then packet_read (hd inputs) else [])\<rparr>)"
proof -
  obtain i j k rest where "inputs = i # j # k # rest"
    using assms(2) by (metis (no_types) One_nat_def Suc_le_length_iff numeral_3_eq_3)
  with assms(1) show ?thesis
    by (cases pc; cases i)
      (simp_all add: thread_done packet_read_def tunnel_push_def Let_def)
qed

section \<open>Properties\<close>

text \<open>\<open>FindChipNameByLabelAndLines\<close> is its one-line specification: the name of the
  first named chip with the label and the number of lines, or else of the first named chip with the
  label, or else nothing.\<close>

lemma find_chip_spec:
  "FindChipNameByLabelAndLines sys label n =
     Option.bind (gpiod_chips sys) (\<lambda>chips.
       case find (exact_chip label n) chips of
         Some c \<Rightarrow> chip_name c
       | None \<Rightarrow> Option.bind (find (labelled_chip label) chips) chip_name)"
  by (simp add: FindChipNameByLabelAndLines_def find_chip_eq split: option.split)

text \<open>C33. A resolved pin lies on a line the system announces: either the pin is
  a global number inside the range of a chip's directory entry, and the offset is its distance from
  the base; or it is an offset smaller than the number of lines of the named chip that was chosen.\<close>

theorem ResolveIrqTarget_sound:
  assumes "ResolveIrqTarget sys pin = Inr (Some t)"
  shows "0 \<le> pin \<and>
    ((\<exists>entries. sysfs_gpio sys = Some entries \<and> (\<exists>entry \<in> set entries. global_match entry pin t)) \<or>
     (\<exists>chips. gpiod_chips sys = Some chips \<and> (\<exists>c \<in> set chips.
        in_range pin c \<and> chip_name c = Some (target_chip_name t) \<and> line_offset t = word_of_int pin)))"
proof (cases "ResolveIrqTargetFromGlobal sys pin = Inr (Some t)")
  case True
  then have "\<exists>entries. sysfs_gpio sys = Some entries \<and> (\<exists>entry \<in> set entries. global_match entry pin t)"
    using resolve_global_match
    by (auto simp: ResolveIrqTargetFromGlobal_def split: option.splits)
  with assms show ?thesis
    by (auto simp: ResolveIrqTarget_def split: if_splits)
next
  case False
  with assms obtain chips where p: "0 \<le> pin" "gpiod_chips sys = Some chips"
      "resolve_offset pin None chips = Some t"
    by (auto simp: ResolveIrqTarget_def ResolveIrqTargetFromOffset_def
        split: if_splits sum.splits option.splits)
  then obtain c where c: "c \<in> set chips" "in_range pin c" "t = offset_target pin c"
    by (auto simp: resolve_offset_eq dest!: find_SomeD split: option.splits)
  then show ?thesis
    using p by (auto simp: offset_target_def in_range_def)
qed

text \<open>\<open>ReadIntFile\<close> reads every \<open>int\<close> the kernel prints, and nothing outside
  the range of \<open>int\<close>.\<close>

lemma read_int_round_trip:
  "(int_ok n \<longrightarrow> ReadIntFile (Some (decimal n @ [CHR 0x0A])) = Some n) \<and>
   (ReadIntFile contents = Some m \<longrightarrow> int_ok m)"
proof -
  have "extract_int (decimal n @ [CHR 0x0A]) = Some n" if "int_ok n"
  proof (cases "n < 0")
    case True
    have "\<not> is_space (CHR ''-'')" by (simp add: is_space_def)
    with True that show ?thesis
      using decimal_nat_digits [of "nat (- n)"]
      by (simp add: decimal_def extract_int_def takeWhile_decimal decimal_nat_value)
  next
    case False
    have "hd (decimal_nat (nat n) @ [CHR 0x0A]) = hd (decimal_nat (nat n))"
      using decimal_nat_digits [of "nat n"] by simp
    with False that show ?thesis
      using decimal_nat_digits [of "nat n"] digit_not_special [OF decimal_nat_hd, of "nat n"]
      by (simp add: decimal_def extract_int_def takeWhile_decimal decimal_nat_value drop_spaces)
  qed
  then show ?thesis
    using ReadIntFile_range by (simp add: ReadIntFile_def)
qed

text \<open>A system with one chip of eight lines and no exported global numbers: pin 6 is an offset.\<close>

definition one_chip :: gpio_sys where
  "one_chip = \<lparr>gpiod_chips = Some [\<lparr>chip_name = Some ''gpiochip0'', chip_label = Some ''pinctrl'', chip_lines = 8\<rparr>],
     sysfs_gpio = Some [], open_by_name = (\<lambda>_. True), get_line = (\<lambda>_ _. True),
     request_events = (\<lambda>_ _. False)\<rparr>"

definition chip_target :: ResolvedIrqTarget where
  "chip_target = \<lparr>target_chip_name = ''gpiochip0'', target_chip_label = ''pinctrl'', line_offset = 6,
     global_gpio = -1\<rparr>"

lemma resolve_one_chip: "ResolveIrqTarget one_chip 6 = Inr (Some chip_target)"
proof -
  have "found ''pinctrl'' (ToLower ''pinctrl'')"
    by code_simp
  then show ?thesis
    by (simp add: ResolveIrqTarget_def ResolveIrqTargetFromGlobal_def ResolveIrqTargetFromOffset_def
        one_chip_def chip_target_def IsPreferredGpioChipLabel_def Let_def)
qed

theorem ResolveIrqTarget_sound_witness:
  "ResolveIrqTarget one_chip 6 = Inr (Some chip_target) \<and>
   (\<exists>chips. gpiod_chips one_chip = Some chips \<and> (\<exists>c \<in> set chips.
      in_range 6 c \<and> chip_name c = Some (target_chip_name chip_target) \<and> line_offset chip_target = 6))"
  using ResolveIrqTarget_sound [OF resolve_one_chip] resolve_one_chip
  by (auto simp: one_chip_def chip_target_def)

text \<open>C32. From an interface without an interrupt line, \<open>InitializeIrq\<close> either
  succeeds with an open chip and a line on which events are requested, the ones it records and the
  ones the pin resolves to, or, whichever call failed, holds nothing and has both pointers null; the
  rest of the interface is untouched. \<open>CleanupIrq\<close> then releases the line before the chip, each of
  them once and only if it is held, and nothing stays held.\<close>

theorem InitializeIrq_contract:
  assumes "irq_chip s = None" and "irq_line s = None"
    and "InitializeIrq sys s = Inr (ok, ops, s')"
  shows "gpio_run ops (None, None, False) = Some (irq_chip s', irq_line s', ok) \<and>
    gpio_run (ops @ fst (CleanupIrq s')) (None, None, False) = Some (None, None, False) \<and>
    (if ok then
       (\<exists>t. ResolveIrqTarget sys (irq_pin s) = Inr (Some t) \<and>
          irq_chip s' = Some (target_chip_name t) \<and> irq_line s' = Some (line_offset t) \<and>
          resolved_irq_chip_name s' = target_chip_name t \<and>
          resolved_irq_line_offset s' = line_offset t \<and> resolved_irq_global_gpio s' = global_gpio t)
     else irq_chip s' = None \<and> irq_line s' = None) \<and>
    tx_in_flight s' = tx_in_flight s \<and> read_buffer s' = read_buffer s \<and>
    running s' = running s \<and> dev_ops s' = dev_ops s \<and> link.more s' = link.more s"
proof -
  have "ResolveIrqTarget sys (irq_pin s) = Inr None \<or> irq_pin s < 0 \<or>
      (\<exists>t. ResolveIrqTarget sys (irq_pin s) = Inr (Some t))"
    using assms(3) by (auto simp: InitializeIrq_def split: if_splits sum.splits option.splits)
  then consider "(ok, ops, s') = (False, [], s)"
    | t where "ResolveIrqTarget sys (irq_pin s) = Inr (Some t)" "\<not> irq_pin s < 0"
    using assms(3) by (auto simp: InitializeIrq_def split: if_splits)
  then show ?thesis
  proof cases
    case 1
    with assms show ?thesis by (simp add: CleanupIrq_def)
  next
    case (2 t)
    with assms show ?thesis
      by (auto simp: InitializeIrq_def CleanupIrq_def Let_def split: if_splits)
  qed
qed

text \<open>The request for events fails: the line is released and the chip closed again.\<close>

theorem InitializeIrq_contract_witness:
  "\<exists>ops s'. InitializeIrq one_chip (RadioInterface_init 6) = Inr (False, ops, s') \<and> ops \<noteq> [] \<and>
     gpio_run ops (None, None, False) = Some (None, None, False) \<and> irq_line s' = None"
proof -
  have "\<exists>ops s'. InitializeIrq one_chip (RadioInterface_init 6) = Inr (False, ops, s') \<and> ops \<noteq> []"
    using resolve_one_chip
    by (simp add: InitializeIrq_def RadioInterface_init_def chip_target_def Let_def CleanupIrq_def one_chip_def)
  then obtain ops s' where i: "InitializeIrq one_chip (RadioInterface_init 6) = Inr (False, ops, s')"
      "ops \<noteq> []"
    by blast
  from InitializeIrq_contract [OF _ _ i(1)] i show ?thesis
    by (simp add: RadioInterface_init_def)
qed

text \<open>C37. The destructor returns once the tunnel thread has made three more steps,
  and not before a \<open>read\<close> the thread is blocked in returns: clearing \<open>running_\<close> does not wake it. The
  packet that \<open>read\<close> then returns is still queued, if it is a valid IP packet, and no other; the queue
  is otherwise kept. The interrupt line and the chip are released after that.\<close>

theorem destructor_joins:
  assumes "irq_line s \<noteq> None \<longrightarrow> irq_chip s \<noteq> None"
  shows "RadioInterface_destroy [] (Tunnel_read, s) = None \<and>
    (3 \<le> length inputs \<longrightarrow>
      (\<exists>ops s'. RadioInterface_destroy inputs (pc, s) = Some (ops, s') \<and> \<not> running s' \<and>
         read_buffer s' = read_buffer s @ (if pc = Tunnel_read then packet_read (hd inputs) else []) \<and>
         irq_chip s' = None \<and> irq_line s' = None \<and>
         gpio_run ops (irq_chip s, irq_line s, irq_line s \<noteq> None) = Some (None, None, False)))"
proof (intro conjI impI)
  show "RadioInterface_destroy [] (Tunnel_read, s) = None"
    by (simp add: RadioInterface_destroy_def)
  assume n: "3 \<le> length inputs"
  let ?s = "s\<lparr>running := False, read_buffer := read_buffer s @
    (if pc = Tunnel_read then packet_read (hd inputs) else [])\<rparr>"
  have "RadioInterface_destroy inputs (pc, s) = Some (CleanupIrq ?s)"
    using thread_stops [of "s\<lparr>running := False\<rparr>" inputs pc] n by (simp add: RadioInterface_destroy_def)
  with CleanupIrq_releases [of ?s True] CleanupIrq_fields [of ?s] assms
  show "\<exists>ops s'. RadioInterface_destroy inputs (pc, s) = Some (ops, s') \<and> \<not> running s' \<and>
      read_buffer s' = read_buffer s @ (if pc = Tunnel_read then packet_read (hd inputs) else []) \<and>
      irq_chip s' = None \<and> irq_line s' = None \<and>
      gpio_run ops (irq_chip s, irq_line s, irq_line s \<noteq> None) = Some (None, None, False)"
    by (cases "CleanupIrq ?s") simp
qed

text \<open>The thread is blocked in \<open>read\<close> when \<open>running_\<close> is cleared; a packet arrives and is queued.\<close>

theorem destructor_joins_witness:
  "\<exists>ops s'. RadioInterface_destroy [Some ([69, 0, 0, 20] @ replicate 16 0), None, None]
       (Tunnel_read, RadioInterface_init (-1)) = Some (ops, s') \<and>
     read_buffer s' = [[69, 0, 0, 20] @ replicate 16 0] \<and> irq_line s' = None"
proof -
  let ?p = "[69, 0, 0, 20] @ replicate 16 0 :: bytes"
  let ?s = "RadioInterface_init (-1) :: link"
  have "packet_read (Some ?p) = [?p]"
    by (simp add: packet_read_def valid_eq_spec ip_spec_def kTunnelReadSize_def)
  with destructor_joins [of ?s "[Some ?p, None, None]" Tunnel_read] show ?thesis
    by (auto simp: RadioInterface_init_def)
qed

end
