(* ===== verification/Fragment_Link.thy ===== *)
theory Fragment_Link
  imports Link_State
begin

text \<open>
  One direction of the link between two \<open>RadioInterface\<close> objects: a packet is cut into 27-byte
  fragments by \<open>BuildNextDataFrameLocked\<close> and \<open>CommitAckLocked\<close> of the sender and put together by
  \<open>ConsumeDataFrameLocked\<close> and \<open>WriteTunnel\<close> of the receiver. This theory interprets the stop-and-wait
  interface \<open>arq\<close> on these operations, which gives the channel invariant \<open>lk.chan_inv\<close> its meaning
  for the program, and proves that a packet sent without loss arrives as it was.
\<close>

section \<open>The data relation\<close>

text \<open>What a receiver uses of a DATA frame besides its number.\<close>

definition tx_fragment :: "'a link_scheme \<Rightarrow> u8 \<times> bytes" where
  "tx_fragment s = (tx_inflight_bytes_left s, tx_inflight_payload s)"

definition fragment_frame :: "u8 \<Rightarrow> u8 \<times> bytes \<Rightarrow> MacFrame" where
  "fragment_frame q af =
     \<lparr>ftype = Data, seq = q, ack = 0, pending = 0, arg = fst af, payload = snd af\<rparr>"

definition rx_accept :: "u8 \<Rightarrow> u8 \<times> bytes \<Rightarrow> 'b link_scheme \<Rightarrow> 'b link_scheme" where
  "rx_accept q af r = snd (ConsumeDataFrameLocked (fragment_frame q af) r)"

lemma consume_fragment:
  "ftype f = Data \<Longrightarrow>
     ConsumeDataFrameLocked f r = ConsumeDataFrameLocked (fragment_frame (seq f) (arg f, payload f)) r"
  by (simp add: ConsumeDataFrameLocked_def fragment_frame_def Let_def split: option.split)

text \<open>
  Packets not yet delivered when nothing accepted is unacknowledged: the reassembly buffer completes
  the packet at the head of the sender's queue.
\<close>

definition outstanding :: "'a link_scheme \<Rightarrow> 'b link_scheme \<Rightarrow> bytes list" where
  "outstanding s r =
     (case read_buffer s of [] \<Rightarrow> [] | p # ps \<Rightarrow> (frame_buffer r @ p) # ps)"

text \<open>
  The first component of the history is every packet offered to the sender since the session began
  (the queue at the reset and everything queued later), the second what the receiver had written to
  its tunnel by then. A prefix of the offered packets has been carried over, and of these the valid
  IP packets have been written; the rest is outstanding.
\<close>

definition sync :: "bytes list \<times> bytes list \<Rightarrow> 'a link_scheme \<Rightarrow> 'b link_scheme \<Rightarrow> bool" where
  "sync g s r \<longleftrightarrow>
     (\<exists>fin. fst g = fin @ outstanding s r \<and> tun_out r = snd g @ filter IsValidIpPacket fin) \<and>
     (read_buffer s = [] \<longrightarrow> frame_buffer r = [])"

lemma sync_cong:
  assumes "read_buffer s' = read_buffer s" and "frame_buffer r' = frame_buffer r"
    and "tun_out r' = tun_out r"
  shows "sync g s' r' = sync g s r"
  using assms by (simp add: sync_def outstanding_def split: list.split)

lemma sync_start: "frame_buffer r = [] \<Longrightarrow> sync (read_buffer s, tun_out r) s r"
  by (auto simp: sync_def outstanding_def split: list.splits)

lemma sync_push: "sync g s r \<Longrightarrow> sync (fst g @ [p], snd g) (tunnel_push p s) r"
  by (auto simp: sync_def outstanding_def tunnel_push_def split: list.splits)

section \<open>Accepting the fragment in flight\<close>

lemma WriteTunnel_fields:
  "frame_buffer (WriteTunnel s) = []"
  "tun_out (WriteTunnel s) = tun_out s @ filter IsValidIpPacket [frame_buffer s]"
  "last_rx_seq (WriteTunnel s) = last_rx_seq s"
  by (simp_all add: WriteTunnel_def)

lemma wf_fragment:
  assumes "link_wf s" and "tx_in_flight s" and "read_buffer s = p # ps"
  shows "p \<noteq> []" and "tx_inflight_payload s = take 27 p"
    and "unat (tx_inflight_bytes_left s) \<le> 27 \<longleftrightarrow> length p \<le> 27"
  using assms by (auto simp: link_wf_def min_def)

lemma accept_fragment_fields:
  assumes "payload f \<noteq> []"
  shows "last_rx_seq (accept_fragment f r) = Some (seq f)"
    and "frame_buffer (accept_fragment f r)
          = (if unat (arg f) \<le> 27 then [] else frame_buffer r @ payload f)"
    and "tun_out (accept_fragment f r)
          = tun_out r @ (if unat (arg f) \<le> 27
                         then filter IsValidIpPacket [frame_buffer r @ payload f] else [])"
  using assms by (auto simp: accept_fragment_def WriteTunnel_fields Let_def)

lemma sync_accept:
  assumes wf: "link_wf s" and fl: "tx_in_flight s" and sy: "sync g s r"
    and f: "arg f = tx_inflight_bytes_left s" "payload f = tx_inflight_payload s"
  shows "sync g (CommitAckLocked (next_tx_seq s) s) (accept_fragment f r)"
proof -
  obtain p ps where rb: "read_buffer s = p # ps"
    using wf fl by (cases "read_buffer s") (auto simp: link_wf_def)
  note frag = wf_fragment [OF wf fl rb]
  from sy rb obtain fin where fin: "fst g = fin @ (frame_buffer r @ p) # ps"
      "tun_out r = snd g @ filter IsValidIpPacket fin"
    by (auto simp: sync_def outstanding_def)
  have ne: "payload f \<noteq> []"
    using frag f by simp
  note acc = accept_fragment_fields [OF ne, of r]
  show ?thesis
  proof (cases "length p \<le> 27")
    case True
    then have "\<exists>fin'. fst g = fin' @ ps \<and>
        tun_out (accept_fragment f r) = snd g @ filter IsValidIpPacket fin'"
      using fin frag f acc
      by (intro exI [of _ "fin @ [frame_buffer r @ p]"]) simp
    with True show ?thesis
      using frag f acc
      by (auto simp: sync_def outstanding_def commit_current [OF wf fl rb] split: list.splits)
  next
    case False
    with fin show ?thesis
      using frag f acc
      by (auto simp: sync_def outstanding_def commit_current [OF wf fl rb])
  qed
qed

section \<open>The stop-and-wait interface holds for the code\<close>

interpretation lk: arq NextSeq seq_ok kNoSeq
    "link_wf :: 'a link_scheme \<Rightarrow> bool" next_tx_seq tx_in_flight tx_fragment CommitAckLocked
    "last_rx_seq :: 'b link_scheme \<Rightarrow> u8 option" rx_accept sync
proof unfold_locales
  fix s :: "'a link_scheme" and r :: "'b link_scheme" and a q f g
  show "link_wf s \<Longrightarrow> seq_ok (next_tx_seq s)"
    by (simp add: link_wf_def)
  show "link_wf s \<Longrightarrow> link_wf (CommitAckLocked a s)"
    by (rule link_wf_commit)
  show "link_wf s \<Longrightarrow> \<not> tx_in_flight s \<or> a \<noteq> next_tx_seq s \<Longrightarrow> CommitAckLocked a s = s"
    by (rule commit_other_ack)
  show "link_wf s \<Longrightarrow> tx_in_flight s \<Longrightarrow>
      next_tx_seq (CommitAckLocked (next_tx_seq s) s) = NextSeq (next_tx_seq s)"
    by (cases "read_buffer s") (auto simp: commit_current, simp add: link_wf_def)
  show "link_wf s \<Longrightarrow> tx_in_flight s \<Longrightarrow> \<not> tx_in_flight (CommitAckLocked (next_tx_seq s) s)"
    by (cases "read_buffer s") (auto simp: commit_current, simp add: link_wf_def)
  show "last_rx_seq r = Some q \<Longrightarrow> seq_ok q \<Longrightarrow> rx_accept q f r = r"
    using consume_duplicate [of r "fragment_frame q f"]
    by (cases "q = 0") (auto simp: rx_accept_def fragment_frame_def)
  assume wf: "link_wf s" and fl: "tx_in_flight s" and sy: "sync g s r"
    and st: "last_rx_seq r = None \<or>
      (\<exists>l. last_rx_seq r = Some l \<and> seq_ok l \<and> NextSeq l = next_tx_seq s)"
  let ?f = "fragment_frame (next_tx_seq s) (tx_fragment s)"
  obtain p ps where rb: "read_buffer s = p # ps"
    using wf fl by (cases "read_buffer s") (auto simp: link_wf_def)
  have "next_tx_seq s \<noteq> 0" and f: "ftype ?f = Data" "seq ?f = next_tx_seq s"
      "arg ?f = tx_inflight_bytes_left s" "payload ?f = tx_inflight_payload s"
    using wf by (auto simp: link_wf_def fragment_frame_def tx_fragment_def)
  then have "ConsumeDataFrameLocked ?f r = (True, accept_fragment ?f r)"
    using st NextSeq_neq by (intro consume_expected) auto
  then have acc: "rx_accept (next_tx_seq s) (tx_fragment s) r = accept_fragment ?f r"
    by (simp add: rx_accept_def)
  show "last_rx_seq (rx_accept (next_tx_seq s) (tx_fragment s) r) = Some (next_tx_seq s) \<and>
      sync g (CommitAckLocked (next_tx_seq s) s) (rx_accept (next_tx_seq s) (tx_fragment s) r)"
    using f wf_fragment [OF wf fl rb] accept_fragment_fields(1) [of ?f]
      sync_accept [OF wf fl sy f(3,4)]
    by (simp add: acc)
qed

lemma lk_ack_of: "lk.ack_of r = ack_value r"
  by (simp add: lk.ack_of_def ack_value_def)

text \<open>
  In the channel invariant the receiver never refuses a fragment that arrives, so its early return
  is not taken.
\<close>

lemma lk_consume_ok:
  assumes "lk.chan_inv g s r ((seq f, arg f, payload f) # ds) as" and "ftype f = Data"
  shows "ConsumeDataFrameLocked f r = (True, rx_accept (seq f) (arg f, payload f) r)"
proof -
  from lk.chan_expected [OF assms(1)] have "seq f \<noteq> 0"
    and "last_rx_seq r = None \<or> last_rx_seq r = Some (seq f) \<or>
      (\<exists>l. last_rx_seq r = Some l \<and> seq f = NextSeq l)"
    by auto
  then have "fst (ConsumeDataFrameLocked f r)"
    using assms(2) by (auto simp: ConsumeDataFrameLocked_def Let_def)
  then show ?thesis
    using consume_fragment [OF assms(2), of r] by (simp add: rx_accept_def prod_eq_iff)
qed

section \<open>A lossless transfer\<close>

text \<open>
  One fragment carried over: built and encoded at the sender, decoded and consumed at the receiver,
  whose acknowledgement the sender commits.
\<close>

definition transfer_fragment ::
  "'a link_scheme \<times> 'b link_scheme \<Rightarrow> 'a link_scheme \<times> 'b link_scheme" where
  "transfer_fragment = (\<lambda>(s, r).
     case BuildNextDataFrameLocked s of
       (False, _, s') \<Rightarrow> (s', r)
     | (True, f, s') \<Rightarrow>
         (case Option.bind (EncodeMacFrame f) DecodeMacFrame of
            None \<Rightarrow> (s', r)
          | Some f' \<Rightarrow>
              (let r' = snd (ConsumeDataFrameLocked f' r)
               in (CommitAckLocked (ack_value r') s', r'))))"

fun transfer :: "nat \<Rightarrow> 'a link_scheme \<times> 'b link_scheme \<Rightarrow> 'a link_scheme \<times> 'b link_scheme" where
  "transfer 0 x = x"
| "transfer (Suc n) x = transfer n (transfer_fragment x)"

definition fragment_count :: "bytes \<Rightarrow> nat" where
  "fragment_count p = (length p + 26) div 27"

text \<open>Both ends agree on the next number and nothing is in flight.\<close>

definition ends_agree :: "'a link_scheme \<Rightarrow> 'b link_scheme \<Rightarrow> bool" where
  "ends_agree s r \<longleftrightarrow> link_wf s \<and> \<not> tx_in_flight s \<and>
     (last_rx_seq r = None \<or>
       (\<exists>l. last_rx_seq r = Some l \<and> seq_ok l \<and> NextSeq l = next_tx_seq s))"

lemma transfer_fragment_step:
  assumes st: "ends_agree s r" and rb: "read_buffer s = p # ps"
  obtains s' r' where "transfer_fragment (s, r) = (s', r')" and "ends_agree s' r'"
    and "read_buffer s' = (if length p \<le> 27 then ps else drop 27 p # ps)"
    and "frame_buffer r' = (if length p \<le> 27 then [] else frame_buffer r @ take 27 p)"
    and "tun_out r' = tun_out r @ (if length p \<le> 27
           then filter IsValidIpPacket [frame_buffer r @ p] else [])"
proof -
  let ?s = "in_flight s" and ?f = "data_frame (in_flight s)"
  let ?r = "accept_fragment ?f r"
  have wf: "link_wf ?s" and fl: "tx_in_flight ?s" and rb': "read_buffer ?s = p # ps"
    using st rb by (auto simp: ends_agree_def frame_simps intro: link_wf_in_flight)
  have q: "seq ?f = next_tx_seq s" "seq ?f \<noteq> 0"
    using wf fl by (auto simp: data_frame_def link_wf_def frame_simps)
  have ne: "payload ?f \<noteq> []" and pl: "payload ?f = take 27 p"
    and len: "unat (arg ?f) \<le> 27 \<longleftrightarrow> length p \<le> 27"
    using wf_fragment [OF wf fl rb'] by (auto simp: data_frame_def)
  note acc = accept_fragment_fields [OF ne, of r]
  have "Option.bind (EncodeMacFrame ?f) DecodeMacFrame = Some ?f"
    using encode_decode_wf [OF data_frame_wf [OF wf fl]] by auto
  moreover have "ConsumeDataFrameLocked ?f r = (True, ?r)"
    using st q NextSeq_neq by (intro consume_expected) (auto simp: data_frame_def ends_agree_def frame_simps)
  moreover have "ack_value ?r = next_tx_seq s"
    using acc q by (simp add: ack_value_def)
  ultimately have eq: "transfer_fragment (s, r) = (CommitAckLocked (next_tx_seq s) ?s, ?r)"
    using rb by (simp add: transfer_fragment_def build_some)
  note commit = commit_current [OF wf fl rb', unfolded in_flight_frame(2)]
  have "seq_ok (next_tx_seq s)"
    using wf by (simp add: link_wf_def frame_simps)
  with link_wf_commit [OF wf, of "next_tx_seq s"] acc(1) q have "ends_agree (CommitAckLocked (next_tx_seq s) ?s) ?r"
    unfolding ends_agree_def by (auto simp: commit)
  then show thesis
    using eq acc pl len by (intro that) (auto simp: commit)
qed

section \<open>Properties\<close>

text \<open>C7. Fragmentation and reassembly are inverse: when both ends agree on the next
  sequence number, the packet \<open>p\<close> at the head of the queue is carried over in \<open>fragment_count p\<close>
  exchanges of encoded frames (one for every 27 bytes begun), for every length; the sender's queue
  then starts with the next packet, the reassembly buffer is empty, the ends agree again, and
  \<open>p\<close> (behind what was left in the buffer) has been written to the tunnel if it is a valid packet.\<close>

theorem transfer_packet:
  assumes "ends_agree s r" and "read_buffer s = p # ps"
  shows "\<exists>s' r'. transfer (fragment_count p) (s, r) = (s', r') \<and> ends_agree s' r' \<and>
    read_buffer s' = ps \<and> frame_buffer r' = [] \<and>
    tun_out r' = tun_out r @ filter IsValidIpPacket [frame_buffer r @ p]"
  using assms
proof (induction "length p" arbitrary: p s r rule: less_induct)
  case less
  obtain s1 r1 where step: "transfer_fragment (s, r) = (s1, r1)" "ends_agree s1 r1"
      "read_buffer s1 = (if length p \<le> 27 then ps else drop 27 p # ps)"
      "frame_buffer r1 = (if length p \<le> 27 then [] else frame_buffer r @ take 27 p)"
      "tun_out r1 = tun_out r @ (if length p \<le> 27
           then filter IsValidIpPacket [frame_buffer r @ p] else [])"
    using transfer_fragment_step [OF less.prems] by metis
  have "p \<noteq> []"
    using less.prems by (auto simp: ends_agree_def link_wf_def)
  show ?case
  proof (cases "length p \<le> 27")
    case True
    with \<open>p \<noteq> []\<close> have "fragment_count p = Suc 0"
      by (cases p) (auto simp: fragment_count_def)
    with True step show ?thesis by simp
  next
    case False
    then have "fragment_count p = Suc (fragment_count (drop 27 p))"
      by (simp add: fragment_count_def)
    with False step less.hyps [of "drop 27 p" s1 r1] show ?thesis by simp
  qed
qed

theorem transfer_packet_witness:
  "let p = [69, 0, 0, 60] @ replicate 56 0; x = (tunnel_push p (RadioInterface_init 0), RadioInterface_init 1)
   in fragment_count p = 3 \<and> tun_out (snd (transfer 3 x)) = [p]"
proof -
  let ?p = "[69, 0, 0, 60] @ replicate 56 0 :: bytes"
  let ?s = "tunnel_push ?p (RadioInterface_init 0)"
  have "link_wf ?s"
    by (intro link_wf_push link_wf_init) simp
  then have "ends_agree ?s (RadioInterface_init 1)"
    by (simp add: ends_agree_def tunnel_push_def RadioInterface_init_def)
  moreover have "read_buffer ?s = [?p]"
    by (simp add: tunnel_push_def RadioInterface_init_def)
  moreover have "fragment_count ?p = 3"
    by (simp add: fragment_count_def)
  moreover have "IsValidIpPacket ?p"
    by (simp add: valid_eq_spec ip_spec_def)
  ultimately show ?thesis
    using transfer_packet [of ?s "RadioInterface_init 1" ?p "[]"]
    by (auto simp: Let_def RadioInterface_init_def)
qed

end
