(* ===== verification/Radio_Io.thy ===== *)
theory Radio_Io
  imports Link_State
begin

text \<open>
  The radio primitives of \<open>radio_interface.cc\<close>: \<open>Send\<close>, \<open>Receive\<close>, \<open>WaitForRxReady\<close> and
  \<open>RecoverAfterTransmitFailure\<close>.

  The RF24 driver, the GPIO library and the clock are not under \<open>src/\<close>: what they answer is an
  argument, a record of observations. A loop that polls the device sees a stream of answers, one per
  pass (\<open>nat \<Rightarrow> _\<close>), and may run for ever, so each loop is an instance of \<open>first_some\<close>, a
  \<open>partial_function (option)\<close> whose \<open>None\<close> means that the loop never ends. The sleeps inside a loop
  are part of the passing of time between two observations.
\<close>

datatype RequestResult = Success | Timeout | Malformed | TransmitError

section \<open>Polling loops\<close>

text \<open>\<open>body i\<close> is what pass \<open>i\<close> of the loop returns, \<open>None\<close> if it goes on.\<close>

partial_function (option) first_some :: "(nat \<Rightarrow> 'r option) \<Rightarrow> nat \<Rightarrow> 'r option" where
  "first_some body i = (case body i of Some r \<Rightarrow> Some r | None \<Rightarrow> first_some body (Suc i))"

lemma first_some_at:
  "i \<le> n \<Longrightarrow> body n = Some r \<Longrightarrow> (\<And>j. i \<le> j \<Longrightarrow> j < n \<Longrightarrow> body j = None)
     \<Longrightarrow> first_some body i = Some r"
proof (induction "n - i" arbitrary: i)
  case 0
  then show ?case by (simp add: first_some.simps [of body i])
next
  case (Suc k)
  then have "first_some body (Suc i) = Some r" by auto
  moreover have "body i = None" using Suc by auto
  ultimately show ?case by (simp add: first_some.simps [of body i])
qed

lemma first_some_returned:
  assumes "first_some body i = Some r"
  shows "\<exists>n \<ge> i. body n = Some r \<and> (\<forall>j. i \<le> j \<and> j < n \<longrightarrow> body j = None)"
proof (rule first_some.raw_induct
    [where P = "\<lambda>body i r. \<exists>n \<ge> i. body n = Some r \<and> (\<forall>j. i \<le> j \<and> j < n \<longrightarrow> body j = None)",
      OF _ assms])
  fix loop and body :: "nat \<Rightarrow> 'b option" and i r
  assume IH: "\<And>body i r. loop body i = Some r \<Longrightarrow>
      \<exists>n \<ge> i. body n = Some r \<and> (\<forall>j. i \<le> j \<and> j < n \<longrightarrow> body j = None)"
    and step: "(case body i of None \<Rightarrow> loop body (Suc i) | Some r \<Rightarrow> Some r) = Some r"
  show "\<exists>n \<ge> i. body n = Some r \<and> (\<forall>j. i \<le> j \<and> j < n \<longrightarrow> body j = None)"
  proof (cases "body i")
    case None
    with step IH obtain n where "Suc i \<le> n" "body n = Some r"
        "\<forall>j. Suc i \<le> j \<and> j < n \<longrightarrow> body j = None"
      by fastforce
    with None show ?thesis
      by (metis Suc_leI Suc_le_lessD le_eq_less_or_eq order_less_imp_le)
  next
    case (Some a)
    with step show ?thesis by auto
  qed
qed

lemma first_some_iff:
  "first_some body 0 = Some r \<longleftrightarrow> (\<exists>n. body n = Some r \<and> (\<forall>j < n. body j = None))"
proof
  show "first_some body 0 = Some r \<Longrightarrow> \<exists>n. body n = Some r \<and> (\<forall>j < n. body j = None)"
    using first_some_returned [of body 0 r] by blast
  show "\<exists>n. body n = Some r \<and> (\<forall>j < n. body j = None) \<Longrightarrow> first_some body 0 = Some r"
    using first_some_at [of 0 _ body r] by blast
qed

text \<open>A loop with a pass that returns does return.\<close>

lemma first_some_total:
  assumes "body n \<noteq> None"
  shows "\<exists>r. first_some body 0 = Some r"
proof -
  define m where "m = (LEAST n. body n \<noteq> None)"
  have "body m \<noteq> None"
    unfolding m_def using assms by (rule LeastI)
  then obtain r where "body m = Some r"
    by auto
  moreover have "body j = None" if "j < m" for j
    using not_less_Least that unfolding m_def by blast
  ultimately have "first_some body 0 = Some r"
    by (intro first_some_at [of 0 m]) simp_all
  then show ?thesis ..
qed

section \<open>Waiting for a packet\<close>

datatype gpiod_wait = Wait_error bool | Wait_timeout | Wait_event
datatype gpiod_read = Read_error bool | Read_ok

text \<open>
  The observations of one pass: \<open>radio_.available()\<close>, \<open>TimeNowUs()\<close>, what \<open>gpiod_line_event_wait\<close>
  returns for the timeout it is given (\<open>None\<close> is a null pointer), and what \<open>gpiod_line_event_read\<close>
  returns. The argument of an error says whether \<open>errno\<close> is \<open>EINTR\<close>.
\<close>

record rx_obs =
  available :: bool
  now :: u64
  line_wait :: "(u64 \<times> u64) option \<Rightarrow> gpiod_wait"
  line_read :: gpiod_read

definition kMicrosPerSecond :: u64 where "kMicrosPerSecond = 1000000"

text \<open>The \<open>timespec\<close> for the time that remains: seconds and nanoseconds.\<close>

definition timespec_of :: "u64 \<Rightarrow> u64 \<times> u64" where
  "timespec_of remaining_us =
     (remaining_us div kMicrosPerSecond, (remaining_us mod kMicrosPerSecond) * 1000)"

definition poll_body :: "(nat \<Rightarrow> rx_obs) \<Rightarrow> u64 \<Rightarrow> u64 \<Rightarrow> nat \<Rightarrow> RequestResult option" where
  "poll_body obs start_us timeout_us i =
     (if available (obs i) then Some Success
      else if timeout_us \<noteq> 0 \<and> start_us + timeout_us < now (obs i) then Some Timeout
      else None)"

definition irq_body :: "(nat \<Rightarrow> rx_obs) \<Rightarrow> u64 \<Rightarrow> nat \<Rightarrow> RequestResult option" where
  "irq_body obs deadline_us i =
     (if available (obs i) then Some Success
      else if deadline_us \<noteq> 0 \<and> now (obs i) \<ge> deadline_us then Some Timeout
      else
        let timeout = (if deadline_us \<noteq> 0 then Some (timespec_of (deadline_us - now (obs i)))
                       else None)
        in case line_wait (obs i) timeout of
             Wait_error eintr \<Rightarrow> (if eintr then None else Some Timeout)
           | Wait_timeout \<Rightarrow> Some Timeout
           | Wait_event \<Rightarrow>
               (case line_read (obs i) of
                  Read_error eintr \<Rightarrow> (if eintr then None else Some Timeout)
                | Read_ok \<Rightarrow> None))"

record recv_env =
  recv_start :: u64
  recv_obs :: "nat \<Rightarrow> rx_obs"
  rx_fifo :: bytes

definition WaitForRxReady :: "recv_env \<Rightarrow> bool \<Rightarrow> u64 \<Rightarrow> RequestResult option" where
  "WaitForRxReady env irq timeout_us =
     (if \<not> irq then first_some (poll_body (recv_obs env) (recv_start env) timeout_us) 0
      else
        let deadline_us = (if timeout_us = 0 then 0 else recv_start env + timeout_us)
        in first_some (irq_body (recv_obs env) deadline_us) 0)"

section \<open>Send and Receive\<close>

definition kTxStandbyTimeoutUs :: u64 where "kTxStandbyTimeoutUs = 20000"
definition kTxFailureRecoveryGapUs :: u64 where "kTxFailureRecoveryGapUs = 200"

definition RecoverAfterTransmitFailure :: "'a link_scheme \<Rightarrow> 'a link_scheme" where
  "RecoverAfterTransmitFailure s = dev (Sleep kTxFailureRecoveryGapUs) (dev FlushTx s)"

text \<open>\<open>write\<close>'s result, the clock when the deadline is set, and per pass \<open>txStandBy\<close> and the clock.\<close>

record send_env =
  write_ok :: bool
  send_start :: u64
  standby :: "nat \<Rightarrow> bool \<times> u64"

definition standby_body :: "(nat \<Rightarrow> bool \<times> u64) \<Rightarrow> u64 \<Rightarrow> nat \<Rightarrow> bool option" where
  "standby_body obs deadline_us i =
     (if fst (obs i) then Some True
      else if snd (obs i) \<ge> deadline_us then Some False
      else None)"

definition Send ::
  "send_env \<Rightarrow> bytes \<Rightarrow> 'a link_scheme \<Rightarrow> (RequestResult \<times> 'a link_scheme) option" where
  "Send env request s =
     (let s = dev StopListening s in
      if length request > kMaxPacketSize then Some (Malformed, s)
      else
        let s = dev (WriteRadio request) s in
        if \<not> write_ok env then Some (TransmitError, RecoverAfterTransmitFailure s)
        else
          let standby_deadline_us = send_start env + kTxStandbyTimeoutUs in
          (case first_some (standby_body (standby env) standby_deadline_us) 0 of
             None \<Rightarrow> None
           | Some ok \<Rightarrow>
               (if ok then Some (Success, s)
                else Some (TransmitError, RecoverAfterTransmitFailure s))))"

text \<open>
  \<open>radio_.read(buf, len)\<close> overwrites the first bytes of the caller's buffer; the buffer keeps its
  length.
\<close>

definition read_into :: "bytes \<Rightarrow> bytes \<Rightarrow> bytes" where
  "read_into fifo buffer = take (length buffer) fifo @ drop (length fifo) buffer"

definition Receive ::
  "recv_env \<Rightarrow> bytes \<Rightarrow> u64 \<Rightarrow> 'a link_scheme
     \<Rightarrow> (RequestResult \<times> bytes \<times> 'a link_scheme) option" where
  "Receive env response timeout_us s =
     (let s = dev StartListening s in
      case WaitForRxReady env (irq_line s \<noteq> None) timeout_us of
        None \<Rightarrow> None
      | Some wait_result \<Rightarrow>
          (if wait_result \<noteq> Success then Some (wait_result, response, s)
           else Some (Success, read_into (rx_fifo env) response, dev ReadRadio s)))"

section \<open>Lemmas\<close>

lemma read_into_length [simp]: "length (read_into fifo buffer) = length buffer"
  by (simp add: read_into_def)

lemma read_into_full: "length fifo = length buffer \<Longrightarrow> read_into fifo buffer = fifo"
  by (simp add: read_into_def)

text \<open>A send touches the device only; a failed one ends with the recovery.\<close>

lemma Send_ops:
  assumes "Send env request s = Some (res, s')"
  shows "s' = s\<lparr>dev_ops := dev_ops s @
      (if length request > 32 then [StopListening]
       else if res = Success then [StopListening, WriteRadio request]
       else [StopListening, WriteRadio request, FlushTx, Sleep kTxFailureRecoveryGapUs])\<rparr>"
    and "length request > 32 \<longleftrightarrow> res = Malformed" and "res \<noteq> Timeout"
  using assms
  by (simp_all add: Send_def Let_def dev_def RecoverAfterTransmitFailure_def
      split: if_splits option.splits)

lemma Send_frame:
  assumes "Send env request s = Some (res, s')"
  shows "read_buffer s' = read_buffer s" "next_tx_seq s' = next_tx_seq s"
    "tx_in_flight s' = tx_in_flight s" "tx_inflight_seq s' = tx_inflight_seq s"
    "tx_inflight_bytes_left s' = tx_inflight_bytes_left s"
    "tx_inflight_payload s' = tx_inflight_payload s"
    "frame_buffer s' = frame_buffer s" "last_rx_seq s' = last_rx_seq s"
    "tun_out s' = tun_out s" "irq_line s' = irq_line s" "link.more s' = link.more s"
    "running s' = running s"
  using assms by (simp_all add: Send_ops(1) [OF assms])

lemma Receive_frame:
  assumes "Receive env response t s = Some (res, bs, s')"
  shows "read_buffer s' = read_buffer s" "next_tx_seq s' = next_tx_seq s"
    "tx_in_flight s' = tx_in_flight s" "tx_inflight_seq s' = tx_inflight_seq s"
    "tx_inflight_bytes_left s' = tx_inflight_bytes_left s"
    "tx_inflight_payload s' = tx_inflight_payload s"
    "frame_buffer s' = frame_buffer s" "last_rx_seq s' = last_rx_seq s"
    "tun_out s' = tun_out s" "irq_line s' = irq_line s" "link.more s' = link.more s"
    "length bs = length response" "running s' = running s"
  using assms
  by (auto simp: Receive_def Let_def dev_def split: option.splits if_splits)

lemma Receive_Success:
  assumes "Receive env response t s = Some (Success, bs, s')"
  shows "bs = read_into (rx_fifo env) response"
  using assms by (auto simp: Receive_def Let_def split: option.splits if_splits)

text \<open>With a clock that reaches the deadline every call returns.\<close>

lemma WaitForRxReady_returns:
  assumes "t \<noteq> 0" and "recv_start env + t \<noteq> 0" and "recv_start env + t < now (recv_obs env n)"
  shows "\<exists>res. WaitForRxReady env irq t = Some res"
proof -
  have "poll_body (recv_obs env) (recv_start env) t n \<noteq> None"
    using assms by (simp add: poll_body_def)
  moreover have "irq_body (recv_obs env) (recv_start env + t) n \<noteq> None"
    using assms by (simp add: irq_body_def order_less_imp_le)
  ultimately show ?thesis
    using assms(1) first_some_total [of "poll_body (recv_obs env) (recv_start env) t"]
      first_some_total [of "irq_body (recv_obs env) (recv_start env + t)"]
    by (simp add: WaitForRxReady_def)
qed

lemma poll_body_result: "poll_body obs st t i = Some res \<Longrightarrow> res = Success \<or> res = Timeout"
  by (auto simp: poll_body_def split: if_splits)

lemma irq_body_result: "irq_body obs dl i = Some res \<Longrightarrow> res = Success \<or> res = Timeout"
  by (auto simp: irq_body_def Let_def split: if_splits gpiod_wait.splits gpiod_read.splits)

lemma WaitForRxReady_result:
  assumes "WaitForRxReady env irq t = Some res"
  shows "res = Success \<or> res = Timeout"
  using assms poll_body_result irq_body_result
  unfolding WaitForRxReady_def Let_def by (metis first_some_iff)

text \<open>A device that works: everything written is sent, and a packet is there to be received.\<close>

definition good_send :: send_env where
  "good_send = \<lparr>write_ok = True, send_start = 0, standby = (\<lambda>i. (True, 0))\<rparr>"

definition good_recv :: "bytes \<Rightarrow> recv_env" where
  "good_recv fifo = \<lparr>recv_start = 0, recv_obs = (\<lambda>i. \<lparr>available = True, now = 0,
     line_wait = (\<lambda>t. Wait_timeout), line_read = Read_ok\<rparr>), rx_fifo = fifo\<rparr>"

lemma Send_good:
  assumes "length p \<le> 32"
  shows "Send good_send p s = Some (Success, dev (WriteRadio p) (dev StopListening s))"
proof -
  have "first_some (standby_body (standby good_send) d) 0 = Some True" for d
    by (simp add: first_some.simps [of _ 0] standby_body_def good_send_def)
  with assms show ?thesis
    by (simp add: Send_def Let_def) (simp add: good_send_def)
qed

lemma wait_good: "WaitForRxReady (good_recv fifo) irq t = Some Success"
  by (simp add: WaitForRxReady_def first_some.simps [of _ 0] poll_body_def irq_body_def good_recv_def
      Let_def)

lemma Receive_good:
  "Receive (good_recv fifo) buffer t s
     = Some (Success, read_into fifo buffer, dev ReadRadio (dev StartListening s))"
proof -
  have "rx_fifo (good_recv fifo) = fifo"
    by (simp add: good_recv_def)
  then show ?thesis
    by (simp add: Receive_def Let_def wait_good)
qed

section \<open>Half-duplex discipline\<close>

text \<open>
  Whether a sequence of device calls writes only after \<open>stopListening\<close> and reads only after
  \<open>startListening\<close>; the first argument is the mode the last such call set.
\<close>

fun disciplined :: "bool option \<Rightarrow> dev_op list \<Rightarrow> bool" where
  "disciplined m [] = True"
| "disciplined m (StopListening # ops) = disciplined (Some False) ops"
| "disciplined m (StartListening # ops) = disciplined (Some True) ops"
| "disciplined m (WriteRadio bs # ops) = (m = Some False \<and> disciplined m ops)"
| "disciplined m (ReadRadio # ops) = (m = Some True \<and> disciplined m ops)"
| "disciplined m (op # ops) = disciplined m ops"

fun mode_after :: "bool option \<Rightarrow> dev_op list \<Rightarrow> bool option" where
  "mode_after m [] = m"
| "mode_after m (StopListening # ops) = mode_after (Some False) ops"
| "mode_after m (StartListening # ops) = mode_after (Some True) ops"
| "mode_after m (op # ops) = mode_after m ops"

lemma disciplined_append:
  "disciplined m (xs @ ys) \<longleftrightarrow> disciplined m xs \<and> disciplined (mode_after m xs) ys"
  by (induction m xs rule: disciplined.induct) auto

text \<open>The longest sleep the program asks for.\<close>

definition short_sleep :: "dev_op \<Rightarrow> bool" where
  "short_sleep op = (case op of Sleep t \<Rightarrow> t \<le> 20000 | _ \<Rightarrow> True)"

lemma short_sleep_simps [simp]:
  "short_sleep (Sleep t) = (t \<le> 20000)" "short_sleep StopListening" "short_sleep StartListening"
  "short_sleep (WriteRadio bs)" "short_sleep ReadRadio" "short_sleep FlushTx" "short_sleep FlushRx"
  by (simp_all add: short_sleep_def)

text \<open>Between two states the device was used within the discipline, whatever its mode was before,
  and no sleep was long.\<close>

definition clean_use :: "'a link_scheme \<Rightarrow> 'b link_scheme \<Rightarrow> bool" where
  "clean_use s s' \<longleftrightarrow>
     (\<exists>ops. dev_ops s' = dev_ops s @ ops \<and> (\<forall>m. disciplined m ops) \<and> list_all short_sleep ops)"

lemma clean_use_same: "dev_ops s' = dev_ops s \<Longrightarrow> clean_use s s'"
  by (simp add: clean_use_def)

lemma clean_use_trans: "clean_use s t \<Longrightarrow> clean_use t u \<Longrightarrow> clean_use s u"
  by (auto simp: clean_use_def disciplined_append)

lemma clean_use_dev [simp]:
  "t \<le> 20000 \<Longrightarrow> clean_use s (dev (Sleep t) s)" "clean_use s (dev FlushTx s)" "clean_use s (dev FlushRx s)"
  by (simp_all add: clean_use_def dev_def)

lemma Send_clean: "Send env request s = Some (res, s') \<Longrightarrow> clean_use s s'"
  by (drule Send_ops(1)) (simp add: clean_use_def kTxFailureRecoveryGapUs_def)

lemma Receive_clean: "Receive env response t s = Some (res, bs, s') \<Longrightarrow> clean_use s s'"
  by (auto simp: Receive_def Let_def dev_def clean_use_def split: if_splits option.splits)

section \<open>Packets put on the air\<close>

fun written :: "dev_op list \<Rightarrow> bytes list" where
  "written [] = []"
| "written (WriteRadio bs # ops) = bs # written ops"
| "written (op # ops) = written ops"

text \<open>The packets written to the radio between two states of a node.\<close>

definition sent_between :: "'a link_scheme \<Rightarrow> 'b link_scheme \<Rightarrow> bytes list" where
  "sent_between s s' = drop (length (written (dev_ops s))) (written (dev_ops s'))"

lemma written_append [simp]: "written (xs @ ys) = written xs @ written ys"
  by (induction xs rule: written.induct) auto

lemma written_dev [simp]:
  "written (dev_ops (dev c s)) = written (dev_ops s) @ written [c]"
  by (simp add: dev_def)

lemma sent_between_eq:
  "written (dev_ops s') = written (dev_ops s) @ ps \<Longrightarrow> sent_between s s' = ps"
  by (simp add: sent_between_def)

lemma Send_written:
  "Send env request s = Some (res, s') \<Longrightarrow> length request \<le> 32 \<Longrightarrow>
     written (dev_ops s') = written (dev_ops s) @ [request]"
  by (drule Send_ops(1)) simp

lemma Receive_written:
  "Receive env response t s = Some (res, bs, s') \<Longrightarrow> written (dev_ops s') = written (dev_ops s)"
  by (auto simp: Receive_def Let_def dev_def split: option.splits if_splits)

section \<open>Properties\<close>

text \<open>C30. Once \<open>txStandBy\<close> succeeds or the clock reaches the deadline, \<open>Send\<close> has
  returned, and what it did to the device is determined by its result: nothing is written exactly
  when the request is longer than 32 bytes (\<open>Malformed\<close>), success is one write, and any other result
  is \<open>TransmitError\<close>, after which the transmit queue has been flushed and the recovery gap slept.
  Nothing but the device is touched, and \<open>Timeout\<close> is never reported.\<close>

theorem Send_contract:
  assumes "fst (standby env n) \<or> send_start env + kTxStandbyTimeoutUs \<le> snd (standby env n)"
  shows "\<exists>res ops. Send env request s = Some (res, s\<lparr>dev_ops := dev_ops s @ ops\<rparr>) \<and>
    (res = Malformed \<longleftrightarrow> 32 < length request) \<and>
    (res = Malformed \<and> ops = [StopListening] \<or>
     res = Success \<and> ops = [StopListening, WriteRadio request] \<or>
     res = TransmitError \<and> ops = [StopListening, WriteRadio request, FlushTx, Sleep 200])"
proof -
  have "standby_body (standby env) (send_start env + kTxStandbyTimeoutUs) n \<noteq> None"
    using assms by (auto simp: standby_body_def)
  from first_some_total [where body = "standby_body (standby env) _" and n = n, OF this]
  obtain ok where
    "first_some (standby_body (standby env) (send_start env + kTxStandbyTimeoutUs)) 0 = Some ok" ..
  moreover define res where "res = (if 32 < length request then Malformed
    else if write_ok env \<and> ok then Success else TransmitError)"
  moreover define ops where "ops = (if 32 < length request then [StopListening]
    else if write_ok env \<and> ok then [StopListening, WriteRadio request]
    else [StopListening, WriteRadio request, FlushTx, Sleep 200])"
  ultimately have "Send env request s = Some (res, s\<lparr>dev_ops := dev_ops s @ ops\<rparr>)"
    by (cases ok) (simp_all add: Send_def Let_def dev_def RecoverAfterTransmitFailure_def
        kTxFailureRecoveryGapUs_def)
  then show ?thesis
    by (intro exI [of _ res] exI [of _ ops]) (simp add: res_def ops_def)
qed

theorem Send_contract_witness:
  "\<exists>res s'. Send \<lparr>write_ok = True, send_start = 0, standby = (\<lambda>i. (False, of_nat i * 20000))\<rparr>
     (replicate 32 0) (RadioInterface_init 0) = Some (res, s')"
  using Send_contract [of "\<lparr>write_ok = True, send_start = 0, standby = (\<lambda>i. (False, of_nat i * 20000))\<rparr>" 1
      "replicate 32 0" "RadioInterface_init 0"]
  by (auto simp: kTxStandbyTimeoutUs_def)

text \<open>C29. With a timeout whose deadline does not wrap to 0, \<open>Receive\<close> returns once
  the clock has passed the deadline, in polling and in interrupt mode and whatever the GPIO calls
  report: \<open>Success\<close> with the FIFO in the buffer, or \<open>Timeout\<close> with the buffer untouched.\<close>

theorem Receive_contract:
  assumes "t \<noteq> 0" and "recv_start env + t \<noteq> 0" and "recv_start env + t < now (recv_obs env n)"
  shows "\<exists>res bs s'. Receive env buffer t s = Some (res, bs, s') \<and>
    (res = Success \<and> bs = read_into (rx_fifo env) buffer \<and>
       s' = s\<lparr>dev_ops := dev_ops s @ [StartListening, ReadRadio]\<rparr> \<or>
     res = Timeout \<and> bs = buffer \<and> s' = s\<lparr>dev_ops := dev_ops s @ [StartListening]\<rparr>)"
proof -
  from WaitForRxReady_returns [OF assms, of "irq_line s \<noteq> None"] obtain res where
    res: "WaitForRxReady env (irq_line s \<noteq> None) t = Some res" by blast
  moreover have "irq_line (dev StartListening s) = irq_line s"
    by (simp add: frame_simps)
  ultimately show ?thesis
    using WaitForRxReady_result [OF res] by (auto simp: Receive_def Let_def dev_def)
qed

theorem Receive_contract_witness:
  "\<exists>bs s'. Receive \<lparr>recv_start = 5, recv_obs = (\<lambda>i. \<lparr>available = False, now = of_nat i * 60000,
       line_wait = (\<lambda>t. Wait_error True), line_read = Read_ok\<rparr>), rx_fifo = []\<rparr>
     [1, 2] 100000 (RadioInterface_init 0) = Some (Timeout, bs, s') \<and> bs = [1, 2]"
proof -
  let ?env = "\<lparr>recv_start = 5, recv_obs = (\<lambda>i. \<lparr>available = False, now = of_nat i * 60000,
       line_wait = (\<lambda>t. Wait_error True), line_read = Read_ok\<rparr>), rx_fifo = []\<rparr>"
  have none: "poll_body (recv_obs ?env) st t i \<noteq> Some Success" for st t i
    by (simp add: poll_body_def)
  have "WaitForRxReady ?env False 100000 \<noteq> Some Success"
    using none by (simp add: WaitForRxReady_def first_some_iff)
  then have "Receive ?env [1, 2] 100000 (RadioInterface_init 0) \<noteq> Some (Success, bs, s')" for bs s'
    by (auto simp: Receive_def Let_def dev_def RadioInterface_init_def split: option.splits)
  then show ?thesis
    using Receive_contract [of 100000 ?env 2 "[1, 2]" "RadioInterface_init 0"] by fastforce
qed

text \<open>Without an interrupt line and with timeout 0, as the peer calls it,
  \<open>Receive\<close> returns if and only if a packet becomes available, and then with \<open>Success\<close> and the FIFO
  in the buffer: it never times out.\<close>

lemma blocking_receive:
  assumes "irq_line s = None"
  shows "Receive env buffer 0 s =
    (if \<exists>n. available (recv_obs env n)
     then Some (Success, read_into (rx_fifo env) buffer,
                s\<lparr>dev_ops := dev_ops s @ [StartListening, ReadRadio]\<rparr>)
     else None)"
proof -
  have body: "poll_body (recv_obs env) (recv_start env) 0 i
      = (if available (recv_obs env i) then Some Success else None)" for i
    by (simp add: poll_body_def)
  have "WaitForRxReady env False 0 =
      (if \<exists>n. available (recv_obs env n) then Some Success else None)"
  proof (cases "\<exists>n. available (recv_obs env n)")
    case True
    then obtain n where "available (recv_obs env n)" ..
    then have ready: "poll_body (recv_obs env) (recv_start env) 0 n \<noteq> None"
      by (simp add: body)
    obtain r where r: "WaitForRxReady env False 0 = Some r"
      using first_some_total [of "poll_body (recv_obs env) (recv_start env) 0", OF ready] by (auto simp: WaitForRxReady_def)
    then have "r = Success"
      by (auto simp: WaitForRxReady_def first_some_iff body split: if_splits)
    with r True show ?thesis by simp
  next
    case False
    then have "WaitForRxReady env False 0 \<noteq> Some r" for r
      by (simp add: WaitForRxReady_def first_some_iff body)
    then have "WaitForRxReady env False 0 = None"
      by (metis not_None_eq)
    with False show ?thesis by simp
  qed
  then show ?thesis
    using assms by (simp add: Receive_def Let_def dev_def)
qed

lemma blocking_wait:
  "WaitForRxReady env False 0 = None \<longleftrightarrow> (\<forall>n. \<not> available (recv_obs env n))"
  using blocking_receive [of "RadioInterface_init 0" env "[]"]
  by (auto simp: Receive_def Let_def dev_def RadioInterface_init_def split: option.splits if_splits)

text \<open>The \<open>timespec\<close> of the interrupt wait is the remaining time, exactly, with a
  nanosecond field below one second, for every 64-bit value: nothing overflows.\<close>

lemma timespec_exact:
  "unat (fst (timespec_of us)) * 1000000000 + unat (snd (timespec_of us)) = unat us * 1000 \<and>
   unat (snd (timespec_of us)) < 1000000000"
proof -
  have "unat (us mod 1000000) = unat us mod 1000000" "unat (us div 1000000) = unat us div 1000000"
    by (simp_all add: unat_mod unat_div)
  moreover from this have "unat (us mod 1000000 * 1000) = unat us mod 1000000 * 1000"
    by (simp add: unat_word_ariths)
  moreover have "unat us = unat us div 1000000 * 1000000 + unat us mod 1000000"
    by simp
  moreover have "unat us mod 1000000 < 1000000"
    by simp
  ultimately show ?thesis
    by (simp only: timespec_of_def kMicrosPerSecond_def fst_conv snd_conv) linarith
qed

end
