(* ===== verification/Channel.thy ===== *)
theory Channel
  imports Fragment_Link Radio_Io
begin

text \<open>
  The channel invariant of \<open>Arq_Link\<close>, as \<open>Fragment_Link\<close> interprets it, on packets: which fragments
  and acknowledgements a list of 32-byte packets carries, and how \<open>lk.chan_inv\<close> changes when an end
  of the link takes one of its steps. The lemmas are stated on the fields an operation reads
  (\<open>tx_view\<close>, \<open>rx_view\<close>), so they apply to both derived classes and to both directions.
\<close>

section \<open>Views\<close>

definition tx_view ::
  "'a link_scheme \<Rightarrow> bytes list \<times> u8 \<times> bool \<times> u8 \<times> u8 \<times> bytes \<times> bool" where
  "tx_view s = (read_buffer s, next_tx_seq s, tx_in_flight s, tx_inflight_seq s,
                tx_inflight_bytes_left s, tx_inflight_payload s, running s)"

definition rx_view :: "'a link_scheme \<Rightarrow> bytes \<times> u8 option \<times> bytes list" where
  "rx_view s = (frame_buffer s, last_rx_seq s, tun_out s)"

lemmas view_defs = tx_view_def rx_view_def

lemma link_wf_view: "tx_view s' = tx_view s \<Longrightarrow> rx_view s' = rx_view s \<Longrightarrow> link_wf s' = link_wf s"
  by (simp add: view_defs link_wf_def)

lemma ack_value_view: "rx_view s' = rx_view s \<Longrightarrow> ack_value s' = ack_value s"
  by (simp add: rx_view_def ack_value_def)

lemma read_buffer_commit:
  "read_buffer (CommitAckLocked a s) =
     (if \<not> tx_in_flight s \<or> a \<noteq> tx_inflight_seq s then read_buffer s
      else case read_buffer s of [] \<Rightarrow> []
        | p # ps \<Rightarrow> (let rest = drop (min (length p) (length (tx_inflight_payload s))) p
                   in if rest = [] then ps else rest # ps))"
  by (auto simp: CommitAckLocked_def AdvanceTxSeq_def Let_def split: list.splits)

lemma commit_rx_view [simp]: "rx_view (CommitAckLocked a s) = rx_view s"
  by (simp add: rx_view_def frame_simps)

lemma consume_tx_view [simp]: "tx_view (snd (ConsumeDataFrameLocked f s)) = tx_view s"
  by (simp add: tx_view_def frame_simps)

lemma in_flight_rx_view [simp]: "rx_view (in_flight s) = rx_view s"
  by (simp add: rx_view_def frame_simps)

lemma push_rx_view [simp]: "rx_view (tunnel_push p s) = rx_view s"
  by (simp add: rx_view_def tunnel_push_def)

lemma dev_view [simp]: "tx_view (dev c s) = tx_view s" "rx_view (dev c s) = rx_view s"
  by (simp_all add: view_defs frame_simps)

lemma Send_view:
  "Send env request s = Some (res, s') \<Longrightarrow> tx_view s' = tx_view s \<and> rx_view s' = rx_view s"
  by (simp add: view_defs Send_frame)

lemma Receive_view:
  "Receive env response t s = Some (res, bs, s') \<Longrightarrow> tx_view s' = tx_view s \<and> rx_view s' = rx_view s"
  by (simp add: view_defs Receive_frame)

section \<open>What a node does with a frame that arrived\<close>

text \<open>\<open>local_has_data\<close> of both \<open>Choose\<close> functions.\<close>

definition has_data :: "'a link_scheme \<Rightarrow> bool" where
  "has_data s \<longleftrightarrow> tx_in_flight s \<or> read_buffer s \<noteq> []"

text \<open>The link after a frame \<open>rx\<close> arrived: its acknowledgement committed, its fragment consumed.\<close>

definition link_after :: "MacFrame \<Rightarrow> 'a link_scheme \<Rightarrow> 'a link_scheme" where
  "link_after rx s =
     (if ftype rx = Data then snd (ConsumeDataFrameLocked rx (CommitAckLocked (ack rx) s))
      else CommitAckLocked (ack rx) s)"

lemma link_wf_after: "link_wf s \<Longrightarrow> link_wf (link_after rx s)"
  by (simp add: link_after_def link_wf_commit link_wf_consume)

lemma commit_cong:
  "tx_view s' = tx_view s \<Longrightarrow> tx_view (CommitAckLocked a s') = tx_view (CommitAckLocked a s)"
  by (auto simp: CommitAckLocked_def AdvanceTxSeq_def Let_def tx_view_def split: list.splits)

lemma consume_cong:
  assumes "rx_view s' = rx_view s"
  shows "fst (ConsumeDataFrameLocked f s') = fst (ConsumeDataFrameLocked f s)"
    and "rx_view (snd (ConsumeDataFrameLocked f s')) = rx_view (snd (ConsumeDataFrameLocked f s))"
  using assms
  by (auto simp: ConsumeDataFrameLocked_def ResetRxAssemblyLocked_def WriteTunnel_def Let_def
      rx_view_def split: option.splits)

lemma link_after_cong:
  assumes "tx_view s' = tx_view s" and "rx_view s' = rx_view s"
  shows "tx_view (link_after rx s') = tx_view (link_after rx s)"
    and "rx_view (link_after rx s') = rx_view (link_after rx s)"
proof -
  have "rx_view (CommitAckLocked (ack rx) s') = rx_view (CommitAckLocked (ack rx) s)"
    using assms(2) by simp
  from consume_cong(2) [OF this, of rx]
  show "tx_view (link_after rx s') = tx_view (link_after rx s)"
    and "rx_view (link_after rx s') = rx_view (link_after rx s)"
    using commit_cong [OF assms(1)] assms(2) by (simp_all add: link_after_def)
qed

lemma link_after_frame [frame_simps]:
  "dev_ops (link_after rx s) = dev_ops s" "link.more (link_after rx s) = link.more s"
  by (simp_all add: link_after_def frame_simps)

section \<open>Steps of the ends\<close>

text \<open>Bookkeeping at either end.\<close>

lemma chan_cong:
  fixes s s' :: "'a link_scheme" and r r' :: "'b link_scheme"
  assumes "lk.chan_inv g s r ds as" and "link_wf s'" and "tx_view s' = tx_view s"
    and "rx_view r' = rx_view r"
  shows "lk.chan_inv g s' r' ds as"
proof (rule lk.chan_update [OF assms(1,2)])
  have commit: "read_buffer (CommitAckLocked a s') = read_buffer (CommitAckLocked a s)" for a
    using assms(3) by (simp add: read_buffer_commit tx_view_def split: list.split)
  show "sync g s' r'" if "sync g s r"
    using that assms(3,4) sync_cong [of s' s r' r g] by (simp add: view_defs)
  show "sync g (CommitAckLocked (next_tx_seq s') s') r'"
    if "sync g (CommitAckLocked (next_tx_seq s) s) r"
    using that assms(3,4) commit sync_cong [OF commit, of r' r g "next_tx_seq s"]
    by (simp add: view_defs)
qed (use assms in \<open>auto simp: view_defs tx_fragment_def\<close>)

text \<open>The sender puts the next fragment in flight and sends it.\<close>

lemma chan_start:
  assumes "lk.chan_inv g s r ds as" and "tx_in_flight s \<or> read_buffer s \<noteq> []"
  shows "lk.chan_inv g (in_flight s) r ds as"
proof (cases "tx_in_flight s")
  case True
  with assms(1) show ?thesis by (simp add: in_flight_def)
next
  case False
  with assms(2) have "link_wf (in_flight s)"
    using lk.chan_wf [OF assms(1)] by (intro link_wf_in_flight) auto
  then show ?thesis
    using False sync_cong [of "in_flight s" s r r g]
    by (intro lk.chan_update [OF assms(1)]) (auto simp: frame_simps)
qed

lemma chan_transmit:
  assumes "lk.chan_inv g s r ds as" and "tx_in_flight s \<or> read_buffer s \<noteq> []"
  shows "lk.chan_inv g (in_flight s) r (ds @ [(next_tx_seq s, tx_fragment (in_flight s))]) as"
  using lk.chan_send [OF chan_start [OF assms]] by (simp add: frame_simps)

text \<open>The tunnel thread queues a packet.\<close>

lemma commit_push:
  assumes "link_wf s" and "tx_in_flight s"
  shows "read_buffer (CommitAckLocked a (tunnel_push p s))
    = read_buffer (tunnel_push p (CommitAckLocked a s))"
  using assms
  by (cases "read_buffer s") (auto simp: read_buffer_commit tunnel_push_def link_wf_def Let_def)

lemma chan_push:
  assumes inv: "lk.chan_inv g s r ds as" and "p \<noteq> []"
  shows "lk.chan_inv (fst g @ [p], snd g) (tunnel_push p s) r ds as"
proof (rule lk.chan_update [OF inv])
  let ?g = "(fst g @ [p], snd g)"
  have wf: "link_wf s" using lk.chan_wf [OF inv] .
  then show "link_wf (tunnel_push p s)"
    using assms(2) by (rule link_wf_push)
  show "sync ?g (tunnel_push p s) r" if "sync g s r"
    using that by (rule sync_push)
  show "sync ?g (CommitAckLocked (next_tx_seq (tunnel_push p s)) (tunnel_push p s)) r"
    if "tx_in_flight s" and "sync g (CommitAckLocked (next_tx_seq s) s) r"
  proof -
    have "next_tx_seq (tunnel_push p s) = next_tx_seq s"
      by (simp add: tunnel_push_def)
    then show ?thesis
      using sync_push [OF that(2), of p]
      by (simp only: sync_cong [OF commit_push [OF wf that(1)] refl refl])
  qed
qed (auto simp: tunnel_push_def tx_fragment_def)

text \<open>What the invariant says of the packets written to the tunnel.\<close>

lemma chan_delivered:
  assumes "lk.chan_inv g s r ds as"
  shows "\<exists>fin rest. fst g = fin @ rest \<and> tun_out r = snd g @ filter IsValidIpPacket fin"
  using assms by (auto simp: lk.chan_inv_def lk.level_def lk.ahead_def sync_def)

lemma chan_fresh:
  assumes "link_wf s" and "\<not> tx_in_flight s" and "last_rx_seq r = None" and "frame_buffer r = []"
  shows "lk.chan_inv (read_buffer s, tun_out r) s r [] []"
  using assms by (intro lk.chan_init) (auto intro: sync_start)

section \<open>Packets in a channel\<close>

definition packet_data :: "bytes \<Rightarrow> (u8 \<times> u8 \<times> bytes) list" where
  "packet_data p =
     (case DecodeMacFrame p of
        None \<Rightarrow> []
      | Some f \<Rightarrow> if ftype f = Data then [(seq f, arg f, payload f)] else [])"

definition packet_ack :: "bytes \<Rightarrow> u8 list" where
  "packet_ack p = (case DecodeMacFrame p of None \<Rightarrow> [] | Some f \<Rightarrow> [ack f])"

definition data_of :: "bytes list \<Rightarrow> (u8 \<times> u8 \<times> bytes) list" where
  "data_of ps = concat (map packet_data ps)"

definition acks_of :: "bytes list \<Rightarrow> u8 list" where
  "acks_of ps = concat (map packet_ack ps)"

lemma of_simps [simp]:
  "data_of [] = []" "data_of (p # ps) = packet_data p @ data_of ps"
  "data_of (ps @ qs) = data_of ps @ data_of qs"
  "acks_of [] = []" "acks_of (p # ps) = packet_ack p @ acks_of ps"
  "acks_of (ps @ qs) = acks_of ps @ acks_of qs"
  by (simp_all add: data_of_def acks_of_def)

lemma chan_lose:
  assumes "lk.chan_inv g s r (data_of (xs @ p # ys)) as"
  shows "lk.chan_inv g s r (data_of (xs @ ys)) as"
  using assms lk.chan_lose_data by simp

lemma chan_lose_back:
  assumes "lk.chan_inv g s r ds (acks_of (xs @ p # ys))"
  shows "lk.chan_inv g s r ds (acks_of (xs @ ys))"
  using assms lk.chan_lose_ack by simp

lemma chan_dup:
  assumes "lk.chan_inv g s r (data_of (xs @ p # ys)) as"
  shows "lk.chan_inv g s r (data_of (xs @ p # p # ys)) as"
  using assms lk.chan_dup_data [of g s r "data_of xs" _ "data_of ys" as]
  by (auto simp: packet_data_def split: option.splits if_splits)

lemma chan_dup_back:
  assumes "lk.chan_inv g s r ds (acks_of (xs @ p # ys))"
  shows "lk.chan_inv g s r ds (acks_of (xs @ p # p # ys))"
  using assms lk.chan_dup_ack [of g s r ds "acks_of xs" _ "acks_of ys"]
  by (auto simp: packet_ack_def split: option.splits)

text \<open>An end takes the packet at the head of its channel: it commits the acknowledgement ...\<close>

lemma chan_take_ack:
  assumes "lk.chan_inv g s r ds (acks_of (p # ps))" and "DecodeMacFrame p = Some f"
  shows "lk.chan_inv g (CommitAckLocked (ack f) s) r ds (acks_of ps)"
  using lk.chan_commit [of g s r ds "ack f" "acks_of ps"] assms by (simp add: packet_ack_def)

text \<open>... and consumes the fragment, if it carries one.\<close>

lemma chan_take_data:
  assumes inv: "lk.chan_inv g s r (data_of (p # ps)) as" and f: "DecodeMacFrame p = Some f"
    and data: "ftype f = Data"
  shows "fst (ConsumeDataFrameLocked f r)"
    and "lk.chan_inv g s (snd (ConsumeDataFrameLocked f r)) (data_of ps) as"
proof -
  from inv f data have "lk.chan_inv g s r ((seq f, arg f, payload f) # data_of ps) as"
    by (simp add: packet_data_def)
  from lk_consume_ok [OF this data] lk.chan_receive [OF this]
  show "fst (ConsumeDataFrameLocked f r)"
    and "lk.chan_inv g s (snd (ConsumeDataFrameLocked f r)) (data_of ps) as"
    by simp_all
qed

lemma chan_take_other:
  assumes "lk.chan_inv g s r (data_of (p # ps)) as" and "DecodeMacFrame p = Some f"
    and "ftype f \<noteq> Data"
  shows "lk.chan_inv g s r (data_of ps) as"
  using assms by (simp add: packet_data_def)

text \<open>An end puts a packet on its channel.\<close>

lemma chan_put_ack:
  assumes "lk.chan_inv g s r ds (acks_of ps)" and "DecodeMacFrame p = Some f"
    and "ack f = ack_value r"
  shows "lk.chan_inv g s r ds (acks_of (ps @ [p]))"
  using lk.chan_ack [OF assms(1)] assms(2,3) by (simp add: packet_ack_def lk_ack_of)

lemma chan_put_data:
  assumes "lk.chan_inv g s r (data_of ps) as" and "tx_in_flight s \<or> read_buffer s \<noteq> []"
    and "DecodeMacFrame p = Some f" and "ftype f = Data"
    and "(seq f, arg f, payload f) = (next_tx_seq s, tx_fragment (in_flight s))"
  shows "lk.chan_inv g (in_flight s) r (data_of (ps @ [p])) as"
  using chan_transmit [OF assms(1,2)] assms(3-5) by (simp add: packet_data_def)

lemma chan_put_other:
  assumes "lk.chan_inv g s r (data_of ps) as" and "DecodeMacFrame p = Some f" and "ftype f \<noteq> Data"
  shows "lk.chan_inv g s r (data_of (ps @ [p])) as"
  using assms by (simp add: packet_data_def)

section \<open>The frames of a session\<close>

text \<open>The requests a coordinator sends, the responses a peer sends, and the RESET packet of both.\<close>

definition request_ok :: "MacFrame \<Rightarrow> bool" where
  "request_ok f \<longleftrightarrow> ftype f \<in> {Data, Grant, Pending}"

definition peer_frame_ok :: "MacFrame \<Rightarrow> bool" where
  "peer_frame_ok f \<longleftrightarrow>
     (ftype f = Data \<and> pending f \<noteq> 0) \<or> (ftype f = Pending \<and> pending f \<noteq> 0) \<or>
     (ftype f = Ack \<and> pending f = 0)"

definition reset_packet :: bytes where
  "reset_packet = [5, 0, 0, 0, 0] @ replicate 27 0"

section \<open>An end takes a packet, an end sends a packet\<close>

lemma link_wf_start: "link_wf s \<Longrightarrow> has_data s \<Longrightarrow> link_wf (in_flight s)"
  by (cases "tx_in_flight s") (simp add: in_flight_def, auto simp: has_data_def intro: link_wf_in_flight)

text \<open>
  \<open>sends f s s'\<close>: between \<open>s\<close> and \<open>s'\<close> the node built the frame \<open>f\<close>, which carries the fragment in
  flight if it is a DATA frame.
\<close>

definition sends :: "MacFrame \<Rightarrow> 'a link_scheme \<Rightarrow> 'a link_scheme \<Rightarrow> bool" where
  "sends f s s' \<longleftrightarrow> ack f = ack_value s \<and> rx_view s' = rx_view s \<and>
     (if ftype f = Data
      then has_data s \<and> tx_view s' = tx_view (in_flight s) \<and>
        (seq f, arg f, payload f) = (next_tx_seq s, tx_fragment (in_flight s))
      else tx_view s' = tx_view s)"

lemma sends_cong:
  assumes "sends f u s'" and "tx_view u = tx_view s" and "rx_view u = rx_view s"
  shows "sends f s s'"
  using assms ack_value_view [OF assms(3)]
  by (simp add: sends_def tx_view_def has_data_def in_flight_def tx_fragment_def split: if_splits)

lemma sends_views:
  "sends f s t \<Longrightarrow> tx_view s' = tx_view t \<Longrightarrow> rx_view s' = rx_view t \<Longrightarrow> sends f s s'"
  by (simp add: sends_def)

lemma sends_wf: "sends f s s' \<Longrightarrow> link_wf s \<Longrightarrow> link_wf s'"
  using link_wf_start [of s] link_wf_view [of s' s] link_wf_view [of s' "in_flight s"]
  by (auto simp: sends_def split: if_splits)

lemma chan_sends:
  fixes s s' :: "'a link_scheme" and r :: "'b link_scheme"
  assumes out: "lk.chan_inv g s r (data_of ps) as" and "in": "lk.chan_inv h r s ds (acks_of ps)"
    and p: "DecodeMacFrame p = Some f" and sends: "sends f s s'"
  shows "lk.chan_inv g s' r (data_of (ps @ [p])) as" and "lk.chan_inv h r s' ds (acks_of (ps @ [p]))"
proof -
  have wf: "link_wf s'" and rx: "rx_view s' = rx_view s"
    using sends lk.chan_wf [OF out] by (auto simp: sends_def intro: sends_wf)
  show "lk.chan_inv g s' r (data_of (ps @ [p])) as"
  proof (cases "ftype f = Data")
    case True
    then have "lk.chan_inv g (in_flight s) r (data_of (ps @ [p])) as"
      using sends by (intro chan_put_data [OF out _ p]) (auto simp: sends_def has_data_def)
    then show ?thesis
      using wf sends True by (elim chan_cong) (auto simp: sends_def)
  next
    case False
    from chan_put_other [OF out p this] show ?thesis
      using wf sends False by (elim chan_cong) (auto simp: sends_def)
  qed
  have "lk.chan_inv h r s ds (acks_of (ps @ [p]))"
    using sends by (intro chan_put_ack [OF "in" p]) (simp add: sends_def)
  then show "lk.chan_inv h r s' ds (acks_of (ps @ [p]))"
    using rx lk.chan_wf [OF "in"] by (elim chan_cong) simp_all
qed

lemma chan_takes:
  fixes s s' :: "'a link_scheme" and r :: "'b link_scheme"
  assumes out: "lk.chan_inv g s r ds (acks_of (p # ps))" and "in": "lk.chan_inv h r s (data_of (p # ps)) as"
    and p: "DecodeMacFrame p = Some f"
    and views: "tx_view s' = tx_view (link_after f s)" "rx_view s' = rx_view (link_after f s)"
  shows "lk.chan_inv g s' r ds (acks_of ps)" and "lk.chan_inv h r s' (data_of ps) as"
    and "ftype f = Data \<Longrightarrow> fst (ConsumeDataFrameLocked f s)"
proof -
  have wf: "link_wf s'"
    using link_wf_view [OF views] link_wf_after lk.chan_wf [OF out] by blast
  have c: "rx_view (CommitAckLocked (ack f) s) = rx_view s"
    by simp
  show "lk.chan_inv g s' r ds (acks_of ps)"
    using chan_take_ack [OF out p] wf views
    by (elim chan_cong) (auto simp: link_after_def split: if_splits)
  show "lk.chan_inv h r s' (data_of ps) as"
  proof (cases "ftype f = Data")
    case True
    from chan_take_data(2) [OF "in" p True] show ?thesis
      using lk.chan_wf [OF "in"] views True consume_cong(2) [OF c, of f]
      by (elim chan_cong) (auto simp: link_after_def)
  next
    case False
    from chan_take_other [OF "in" p False] show ?thesis
      using lk.chan_wf [OF "in"] views False by (elim chan_cong) (auto simp: link_after_def)
  qed
  show "fst (ConsumeDataFrameLocked f s)" if "ftype f = Data"
    using chan_take_data(1) [OF "in" p that] .
qed

section \<open>RESET packets that a handshake leaves behind\<close>

text \<open>
  A channel that repeats or delays packets may hold RESETs of the handshake, in both directions, when
  the session has begun. They carry no fragment and acknowledge none.
\<close>

definition only_resets :: "bytes list \<Rightarrow> bool" where
  "only_resets ps \<longleftrightarrow> (\<forall>p \<in> set ps. p = reset_packet)"

text \<open>An end as a reset leaves it, whatever is queued.\<close>

definition cleared :: "'a link_scheme \<Rightarrow> bool" where
  "cleared s \<longleftrightarrow> next_tx_seq s = 1 \<and> \<not> tx_in_flight s \<and> tx_inflight_seq s = 0 \<and>
     tx_inflight_bytes_left s = 0 \<and> tx_inflight_payload s = [] \<and> last_rx_seq s = None \<and>
     frame_buffer s = []"

lemma cleared_view: "tx_view s' = tx_view s \<Longrightarrow> rx_view s' = rx_view s \<Longrightarrow> cleared s' = cleared s"
  by (simp add: cleared_def view_defs)

lemma cleared_push [simp]: "cleared (tunnel_push p s) = cleared s"
  by (simp add: cleared_def tunnel_push_def)

lemma cleared_clear: "cleared (clear_session s)"
  by (simp add: cleared_def clear_session_def)

lemma clear_cleared:
  "cleared s \<Longrightarrow> tx_view (clear_session s) = tx_view s \<and> rx_view (clear_session s) = rx_view s"
  by (simp add: cleared_def clear_session_def view_defs)

text \<open>Requests that follow such RESETs.\<close>

definition requests_after_resets :: "bytes list \<Rightarrow> bool" where
  "requests_after_resets ps \<longleftrightarrow>
     (\<forall>p \<in> set (dropWhile (\<lambda>p. p = reset_packet) ps). \<exists>f. DecodeMacFrame p = Some f \<and> request_ok f)"

lemma requests_only_resets: "only_resets ps \<Longrightarrow> requests_after_resets ps"
  by (simp add: only_resets_def requests_after_resets_def dropWhile_eq_Nil_conv [THEN iffD2])

lemma requests_append:
  assumes "requests_after_resets ps" and "DecodeMacFrame p = Some f" and "request_ok f"
  shows "requests_after_resets (ps @ [p])"
  using assms by (auto simp: requests_after_resets_def dropWhile_append)

lemma requests_lose:
  "requests_after_resets (xs @ p # ys) \<Longrightarrow> requests_after_resets (xs @ ys)"
  "requests_after_resets (xs @ p # ys) \<Longrightarrow> requests_after_resets (xs @ p # p # ys)"
  by (auto simp: requests_after_resets_def dropWhile_append dest: set_dropWhileD split: if_splits)

section \<open>The tunnel thread between two locked regions\<close>

lemma fold_push: "fold tunnel_push ps s = s\<lparr>read_buffer := read_buffer s @ ps\<rparr>"
  by (induction ps arbitrary: s) (simp_all add: tunnel_push_def)

lemma in_flight_push:
  "has_data s \<Longrightarrow> in_flight (fold tunnel_push ps s) = fold tunnel_push ps (in_flight s)"
  by (cases "read_buffer s") (auto simp: fold_push in_flight_def has_data_def)

lemma data_frame_queue:
  "(data_frame (s\<lparr>read_buffer := q\<rparr>))\<lparr>pending := n\<rparr> = (data_frame s)\<lparr>pending := n\<rparr>"
  by (simp add: data_frame_def ack_value_def)

lemma build_push:
  assumes "has_data s"
  shows "BuildNextDataFrameLocked (fold tunnel_push ps s)
     = (True, data_frame (fold tunnel_push ps (in_flight s)), fold tunnel_push ps (in_flight s))"
proof -
  have "tx_in_flight (fold tunnel_push ps s) \<or> read_buffer (fold tunnel_push ps s) \<noteq> []"
    using assms by (auto simp: fold_push has_data_def)
  from build_some [OF this] show ?thesis
    by (simp only: in_flight_push [OF assms])
qed

end
