(* ===== verification/Coordinator.thy ===== *)
theory Coordinator
  imports Channel
begin

text \<open>
  \<open>PrimaryRadioInterface\<close> (\<open>primary_radio_interface.h\<close>, \<open>primary_radio_interface.cc\<close>): the
  coordinator that owns the session. The record \<open>coordinator\<close> extends \<open>link\<close> as the class derives
  from \<open>RadioInterface\<close>; the members that both derived classes declare carry the prefix \<open>c_\<close>.

  \<open>PerformExchange\<close> is written as the code's two halves around the air: \<open>exchange_request\<close> up to
  \<open>Send\<close>, \<open>exchange_response\<close> from \<open>Receive\<close> on. \<open>Run_step\<close> is one pass of the loop of \<open>Run\<close>.
\<close>

section \<open>State\<close>

datatype CoordinatorState = ResetSync | Idle | IssueGrant | ActiveRx
datatype FailureType = Fail_Send | Fail_Timeout | Fail_Protocol
datatype ExchangeResult = Ex_Success | SendFailure | TimeoutFailure | ProtocolFailure

record coordinator = link +
  peer_grant_budget :: u8
  c_tx_pending_count :: u64
  c_tx_grant_count :: u64
  c_tx_data_count :: u64
  c_rx_ack_count :: u64
  c_rx_pending_count :: u64
  c_rx_data_count :: u64
  c_tx_send_fail_count :: u64
  c_tx_send_fail_pending_count :: u64
  c_tx_send_fail_grant_count :: u64
  c_tx_send_fail_data_count :: u64
  c_tx_send_fail_ack_count :: u64
  c_tx_send_fail_reset_count :: u64
  c_rx_timeout_count :: u64
  poll_interval_us :: u64
  current_poll_interval_us :: u64
  poll_fail_count :: int
  send_fail_streak :: int
  timeout_fail_streak :: int
  disconnected :: bool
  disconnect_backoff_us :: u64
  next_retry_time_us :: u64
  reset_fail_log_counter :: u64
  cstate :: CoordinatorState
  connection_reset_required :: bool
  peer_has_pending :: bool
  last_tx_was_data :: bool
  consecutive_local_data_frames :: u8
  c_idle_log_counter :: u64
  stat_loop_counter :: u64
  fail_log_counter :: u64
  c_last_stat_print_us :: u64

definition kDefaultBurstGrant :: u8 where "kDefaultBurstGrant = 3"
definition kIdlePollIntervalUs :: u64 where "kIdlePollIntervalUs = 20000"
definition kActivePollIntervalUs :: u64 where "kActivePollIntervalUs = 1000"
definition kPostDataExchangeGapUs :: u64 where "kPostDataExchangeGapUs = 250"
definition kFairDataBurstLimit :: u8 where "kFairDataBurstLimit = 2"
definition kDisconnectFailureThreshold :: int where "kDisconnectFailureThreshold = 5"
definition kInitialDisconnectBackoffUs :: u64 where "kInitialDisconnectBackoffUs = 100000"
definition kMaxDisconnectBackoffUs :: u64 where "kMaxDisconnectBackoffUs = 1000000"

text \<open>The \<open>timeout_us\<close> argument of both \<open>Receive\<close> calls.\<close>

definition kResponseTimeoutUs :: u64 where "kResponseTimeoutUs = 100000"

definition PrimaryRadioInterface :: "u32 \<Rightarrow> u32 \<Rightarrow> u64 \<Rightarrow> link \<Rightarrow> coordinator" where
  "PrimaryRadioInterface primary_addr secondary_addr interval base =
     (let s = link.extend base
        (coordinator.fields 0 0 0 0 0 0 0 0 0 0 0 0 0 0 interval interval 0 0 0 False
           kInitialDisconnectBackoffUs 0 0 ResetSync True False False 0 0 0 0 0);
          s = dev (OpenWritingPipe (pipe_address primary_addr)) s
      in dev (OpenReadingPipe kPipeId (pipe_address secondary_addr)) s)"

section \<open>Choosing a frame\<close>

text \<open>
  \<open>ChooseCoordinatorTxFrame\<close> looks at the queue under the lock, releases it, and takes it again to
  build a DATA frame. \<open>queued\<close> are the packets the tunnel thread appends in between.
\<close>

definition choose_grant :: "u8 \<Rightarrow> MacFrame \<Rightarrow> coordinator \<Rightarrow> bool \<times> MacFrame \<times> coordinator" where
  "choose_grant hint tx s =
     (True, tx\<lparr>ftype := Grant, pending := hint, arg := kDefaultBurstGrant\<rparr>,
      s\<lparr>last_tx_was_data := False, c_tx_grant_count := c_tx_grant_count s + 1\<rparr>)"

definition ChooseCoordinatorTxFrame_at ::
  "bytes list \<Rightarrow> coordinator \<Rightarrow> bool \<times> MacFrame \<times> coordinator" where
  "ChooseCoordinatorTxFrame_at queued s =
     (let tx = empty_frame\<lparr>ack := ack_value s\<rparr>;
          local_has_data = (tx_in_flight s \<or> read_buffer s \<noteq> []);
          s = fold tunnel_push queued s
      in case cstate s of
           ResetSync \<Rightarrow>
             (True, tx\<lparr>ftype := Reset, pending := 0, arg := 0\<rparr>, s\<lparr>last_tx_was_data := False\<rparr>)
         | IssueGrant \<Rightarrow> choose_grant (if local_has_data then 1 else 0) tx s
         | ActiveRx \<Rightarrow> choose_grant (if local_has_data then 1 else 0) tx s
         | Idle \<Rightarrow>
             if local_has_data then
               if peer_has_pending s \<and> consecutive_local_data_frames s \<ge> kFairDataBurstLimit
               then choose_grant 1 tx s
               else
                 (case BuildNextDataFrameLocked s of
                    (built, tx, s) \<Rightarrow>
                      if \<not> built then (False, tx, s)
                      else (True, tx\<lparr>pending := 1\<rparr>,
                            s\<lparr>last_tx_was_data := True, c_tx_data_count := c_tx_data_count s + 1\<rparr>))
             else
               (True, tx\<lparr>ftype := Pending, pending := 0, arg := 0\<rparr>,
                s\<lparr>last_tx_was_data := False, c_tx_pending_count := c_tx_pending_count s + 1\<rparr>))"

definition ChooseCoordinatorTxFrame :: "coordinator \<Rightarrow> bool \<times> MacFrame \<times> coordinator" where
  "ChooseCoordinatorTxFrame s = ChooseCoordinatorTxFrame_at [] s"

section \<open>Applying a response\<close>

definition ApplyPeerResponse :: "MacFrame \<Rightarrow> coordinator \<Rightarrow> bool \<times> coordinator" where
  "ApplyPeerResponse rx s =
     (let s = CommitAckLocked (ack rx) s in
      case (if ftype rx = Data then ConsumeDataFrameLocked rx s else (True, s)) of
        (consumed, s) \<Rightarrow>
          if \<not> consumed then (False, s)
          else
            let s = s\<lparr>peer_has_pending := (pending rx \<noteq> 0)\<rparr> in
            case ftype rx of
              Ack \<Rightarrow>
                (True, s\<lparr>c_rx_ack_count := c_rx_ack_count s + 1,
                         cstate := (if peer_has_pending s then IssueGrant else Idle)\<rparr>)
            | Pending \<Rightarrow>
                (True, s\<lparr>c_rx_pending_count := c_rx_pending_count s + 1, cstate := IssueGrant\<rparr>)
            | Data \<Rightarrow>
                (True, s\<lparr>c_rx_data_count := c_rx_data_count s + 1,
                         cstate := (if peer_has_pending s then ActiveRx else Idle)\<rparr>)
            | _ \<Rightarrow> (False, s))"

definition RecordSendFailure :: "FrameType \<Rightarrow> coordinator \<Rightarrow> coordinator" where
  "RecordSendFailure frame_type s =
     (case frame_type of
        Pending \<Rightarrow> s\<lparr>c_tx_send_fail_pending_count := c_tx_send_fail_pending_count s + 1\<rparr>
      | Grant \<Rightarrow> s\<lparr>c_tx_send_fail_grant_count := c_tx_send_fail_grant_count s + 1\<rparr>
      | Data \<Rightarrow> s\<lparr>c_tx_send_fail_data_count := c_tx_send_fail_data_count s + 1\<rparr>
      | Ack \<Rightarrow> s\<lparr>c_tx_send_fail_ack_count := c_tx_send_fail_ack_count s + 1\<rparr>
      | Reset \<Rightarrow> s\<lparr>c_tx_send_fail_reset_count := c_tx_send_fail_reset_count s + 1\<rparr>
      | _ \<Rightarrow> s)"

section \<open>One exchange\<close>

record exchange_env =
  x_send :: send_env
  x_recv :: recv_env

text \<open>
  The first half: choose, encode and send. \<open>Inl\<close> ends the exchange early, \<open>Inr\<close> carries the frame
  whose response is awaited.
\<close>

definition exchange_request ::
  "send_env \<Rightarrow> coordinator \<Rightarrow> ((ExchangeResult + MacFrame) \<times> coordinator) option" where
  "exchange_request env s =
     (case ChooseCoordinatorTxFrame s of
        (chosen, tx, s) \<Rightarrow>
          if \<not> chosen then Some (Inl ProtocolFailure, s)
          else case EncodeMacFrame tx of
            None \<Rightarrow> Some (Inl ProtocolFailure, s)
          | Some request \<Rightarrow>
              (case Send env request s of
                 None \<Rightarrow> None
               | Some (result, s) \<Rightarrow>
                   if result \<noteq> Success then
                     (let s = s\<lparr>c_tx_send_fail_count := c_tx_send_fail_count s + 1\<rparr>;
                          s = RecordSendFailure (ftype tx) s;
                          s = s\<lparr>fail_log_counter := fail_log_counter s + 1\<rparr>
                      in Some (Inl SendFailure, s))
                   else Some (Inr tx, s)))"

text \<open>The bookkeeping of \<open>PerformExchange\<close> around \<open>ApplyPeerResponse\<close>.\<close>

definition conclude_exchange :: "MacFrame \<Rightarrow> MacFrame \<Rightarrow> coordinator \<Rightarrow> ExchangeResult \<times> coordinator" where
  "conclude_exchange tx rx s =
     (let is_idle_pair = (ftype tx = Pending \<and> ftype rx = Ack);
          s = (if is_idle_pair then s\<lparr>c_idle_log_counter := c_idle_log_counter s + 1\<rparr> else s)
      in case ApplyPeerResponse rx s of
        (applied, s) \<Rightarrow>
          (let s = (if applied then
                      (if ftype tx = Data \<and> ftype rx \<noteq> Data
                       then s\<lparr>consecutive_local_data_frames :=
                                of_nat (min (unat (consecutive_local_data_frames s) + 1) 255)\<rparr>
                       else if ftype tx \<noteq> Data \<or> ftype rx = Data
                       then s\<lparr>consecutive_local_data_frames := 0\<rparr>
                       else s)
                    else s\<lparr>consecutive_local_data_frames := 0\<rparr>);
               s = (if applied \<and> (ftype tx = Data \<or> ftype rx = Data)
                    then dev (Sleep kPostDataExchangeGapUs) s else s)
           in (if applied then Ex_Success else ProtocolFailure, s)))"

definition exchange_response ::
  "recv_env \<Rightarrow> MacFrame \<Rightarrow> coordinator \<Rightarrow> (ExchangeResult \<times> coordinator) option" where
  "exchange_response env tx s =
     (case Receive env (replicate kMaxPacketSize 0) kResponseTimeoutUs s of
        None \<Rightarrow> None
      | Some (result, response, s) \<Rightarrow>
          if result \<noteq> Success then
            Some (TimeoutFailure,
                  s\<lparr>c_rx_timeout_count := c_rx_timeout_count s + 1,
                    fail_log_counter := fail_log_counter s + 1\<rparr>)
          else case DecodeMacFrame response of
            None \<Rightarrow> Some (ProtocolFailure, s)
          | Some rx \<Rightarrow> Some (conclude_exchange tx rx s))"

definition PerformExchange ::
  "exchange_env \<Rightarrow> coordinator \<Rightarrow> (ExchangeResult \<times> coordinator) option" where
  "PerformExchange env s =
     (case exchange_request (x_send env) s of
        None \<Rightarrow> None
      | Some (Inl result, s) \<Rightarrow> Some (result, s)
      | Some (Inr tx, s) \<Rightarrow> exchange_response (x_recv env) tx s)"

section \<open>Session reset\<close>

definition reset_frame :: MacFrame where
  "reset_frame = empty_frame\<lparr>ftype := Reset, seq := 0, ack := 0, pending := 0, arg := 0\<rparr>"

definition begin_reset :: "coordinator \<Rightarrow> coordinator" where
  "begin_reset s =
     (let s = clear_session (dev FlushTx (dev FlushRx s))
      in s\<lparr>peer_has_pending := False, peer_grant_budget := 0, last_tx_was_data := False,
           consecutive_local_data_frames := 0\<rparr>)"

definition ConnectionReset :: "exchange_env \<Rightarrow> coordinator \<Rightarrow> (bool \<times> coordinator) option" where
  "ConnectionReset env s =
     (let s = begin_reset s in
      case EncodeMacFrame reset_frame of
        None \<Rightarrow> Some (False, s)
      | Some request \<Rightarrow>
          (case Send (x_send env) request s of
             None \<Rightarrow> None
           | Some (result, s) \<Rightarrow>
               if result \<noteq> Success then Some (False, s)
               else case Receive (x_recv env) (replicate kMaxPacketSize 0) kResponseTimeoutUs s of
                 None \<Rightarrow> None
               | Some (result, response, s) \<Rightarrow>
                   if result \<noteq> Success then Some (False, s)
                   else case DecodeMacFrame response of
                     None \<Rightarrow> Some (False, s)
                   | Some rx \<Rightarrow>
                       if ftype rx \<noteq> Reset then Some (False, s)
                       else Some (True, dev FlushTx (dev FlushRx s))))"

section \<open>Failures\<close>

definition HandleTransactionFailure :: "u64 \<Rightarrow> FailureType \<Rightarrow> coordinator \<Rightarrow> coordinator" where
  "HandleTransactionFailure now_us failure_type s =
     (let s = (case failure_type of
                 Fail_Send \<Rightarrow> s\<lparr>send_fail_streak := send_fail_streak s + 1, timeout_fail_streak := 0\<rparr>
               | Fail_Timeout \<Rightarrow>
                   s\<lparr>timeout_fail_streak := timeout_fail_streak s + 1, send_fail_streak := 0\<rparr>
               | Fail_Protocol \<Rightarrow>
                   s\<lparr>send_fail_streak := send_fail_streak s + 1,
                     timeout_fail_streak := timeout_fail_streak s + 1\<rparr>);
          combined_fail_streak = send_fail_streak s + timeout_fail_streak s;
          s = s\<lparr>poll_fail_count := combined_fail_streak\<rparr>;
          disconnect_now =
            (send_fail_streak s \<ge> kDisconnectFailureThreshold \<or>
             timeout_fail_streak s \<ge> kDisconnectFailureThreshold + 2 \<or>
             combined_fail_streak \<ge> kDisconnectFailureThreshold + 3)
      in if disconnect_now then
           s\<lparr>disconnected := True, connection_reset_required := True, cstate := ResetSync,
             next_retry_time_us := now_us + disconnect_backoff_us s\<rparr>
         else
           let s = s\<lparr>current_poll_interval_us := current_poll_interval_us s * 2\<rparr> in
           if current_poll_interval_us s > 1000000 then s\<lparr>current_poll_interval_us := 1000000\<rparr>
           else s)"

section \<open>The main loop\<close>

text \<open>The clock as one pass reads it, and the device's answers.\<close>

record run_env =
  loop_now :: u64
  run_exchange :: exchange_env
  fail_now :: u64
  stat_now :: u64

text \<open>Both success branches of the reset assign the same members.\<close>

definition session_up :: "coordinator \<Rightarrow> coordinator" where
  "session_up s =
     s\<lparr>disconnected := False, connection_reset_required := False, poll_fail_count := 0,
       send_fail_streak := 0, timeout_fail_streak := 0,
       disconnect_backoff_us := kInitialDisconnectBackoffUs, next_retry_time_us := 0,
       cstate := Idle\<rparr>"

text \<open>The branch of a disconnected coordinator whose retry failed.\<close>

definition retry_failed :: "u64 \<Rightarrow> coordinator \<Rightarrow> coordinator" where
  "retry_failed now_us s =
     (let s = s\<lparr>reset_fail_log_counter := reset_fail_log_counter s + 1,
                next_retry_time_us := now_us + disconnect_backoff_us s,
                disconnect_backoff_us := disconnect_backoff_us s * 2\<rparr>
      in if disconnect_backoff_us s > kMaxDisconnectBackoffUs
         then s\<lparr>disconnect_backoff_us := kMaxDisconnectBackoffUs\<rparr> else s)"

definition choose_poll_interval :: "coordinator \<Rightarrow> coordinator" where
  "choose_poll_interval s =
     s\<lparr>current_poll_interval_us :=
         (if cstate s = Idle \<and> \<not> peer_has_pending s then kIdlePollIntervalUs
          else kActivePollIntervalUs)\<rparr>"

text \<open>The switch on the result of \<open>PerformExchange\<close>.\<close>

definition after_exchange :: "u64 \<Rightarrow> ExchangeResult \<Rightarrow> coordinator \<Rightarrow> coordinator" where
  "after_exchange now_us result s =
     (case result of
        Ex_Success \<Rightarrow>
          s\<lparr>poll_fail_count := 0, send_fail_streak := 0, timeout_fail_streak := 0,
            disconnected := False, disconnect_backoff_us := kInitialDisconnectBackoffUs,
            next_retry_time_us := 0\<rparr>
      | SendFailure \<Rightarrow> HandleTransactionFailure now_us Fail_Send s
      | TimeoutFailure \<Rightarrow> HandleTransactionFailure now_us Fail_Timeout s
      | ProtocolFailure \<Rightarrow> HandleTransactionFailure now_us Fail_Protocol s)"

definition coordinator_stats :: "u64 \<Rightarrow> coordinator \<Rightarrow> coordinator" where
  "coordinator_stats stat_now_us s =
     (let s = (if c_last_stat_print_us s = 0 then s\<lparr>c_last_stat_print_us := stat_now_us\<rparr> else s)
      in if stat_now_us - c_last_stat_print_us s \<ge> 1000000
         then s\<lparr>c_last_stat_print_us := stat_now_us\<rparr> else s)"

definition Run_step :: "run_env \<Rightarrow> coordinator \<Rightarrow> coordinator option" where
  "Run_step env s =
     (if disconnected s then
        (if loop_now env < next_retry_time_us s then Some (dev (Sleep 1000) s)
         else case ConnectionReset (run_exchange env) s of
           None \<Rightarrow> None
         | Some (ok, s) \<Rightarrow> Some (if \<not> ok then retry_failed (fail_now env) s else session_up s))
      else
        let s = choose_poll_interval s;
            s = dev (Sleep (current_poll_interval_us s)) s
        in if connection_reset_required s then
             (case ConnectionReset (run_exchange env) s of
                None \<Rightarrow> None
              | Some (ok, s) \<Rightarrow>
                  Some (if \<not> ok
                        then HandleTransactionFailure (fail_now env) Fail_Protocol
                               (s\<lparr>reset_fail_log_counter := reset_fail_log_counter s + 1\<rparr>)
                        else session_up s))
           else
             (case PerformExchange (run_exchange env) s of
                None \<Rightarrow> None
              | Some (result, s) \<Rightarrow>
                  Some (coordinator_stats (stat_now env)
                          (after_exchange (fail_now env) result s))))"

section \<open>Lemmas\<close>

text \<open>The members that steer the coordinator.\<close>

definition control :: "coordinator \<Rightarrow> CoordinatorState \<times> bool \<times> bool \<times> bool" where
  "control s = (cstate s, connection_reset_required s, disconnected s, peer_has_pending s)"

text \<open>Failure handling and statistics leave the link and the device alone.\<close>

lemma failure_frame [simp]:
  "tx_view (HandleTransactionFailure t ft s) = tx_view s"
  "rx_view (HandleTransactionFailure t ft s) = rx_view s"
  "dev_ops (HandleTransactionFailure t ft s) = dev_ops s"
  "peer_has_pending (HandleTransactionFailure t ft s) = peer_has_pending s"
  by (simp_all add: HandleTransactionFailure_def Let_def view_defs split: FailureType.split)

lemma after_exchange_frame [simp]:
  "tx_view (after_exchange t res s) = tx_view s"
  "rx_view (after_exchange t res s) = rx_view s"
  "dev_ops (after_exchange t res s) = dev_ops s"
  "peer_has_pending (after_exchange t res s) = peer_has_pending s"
  by (simp_all add: after_exchange_def split: ExchangeResult.split) (simp_all add: view_defs)

lemma stats_frame [simp]:
  "tx_view (coordinator_stats t s) = tx_view s" "rx_view (coordinator_stats t s) = rx_view s"
  "dev_ops (coordinator_stats t s) = dev_ops s" "control (coordinator_stats t s) = control s"
  by (simp_all add: coordinator_stats_def Let_def view_defs control_def)

lemma session_up_frame [simp]:
  "tx_view (session_up s) = tx_view s" "rx_view (session_up s) = rx_view s"
  "dev_ops (session_up s) = dev_ops s"
  "control (session_up s) = (Idle, False, False, peer_has_pending s)"
  by (simp_all add: session_up_def view_defs control_def)

lemma retry_failed_frame [simp]:
  "tx_view (retry_failed t s) = tx_view s" "rx_view (retry_failed t s) = rx_view s"
  "dev_ops (retry_failed t s) = dev_ops s" "control (retry_failed t s) = control s"
  by (simp_all add: retry_failed_def Let_def view_defs control_def)

lemma poll_interval_frame [simp]:
  "tx_view (choose_poll_interval s) = tx_view s" "rx_view (choose_poll_interval s) = rx_view s"
  "dev_ops (choose_poll_interval s) = dev_ops s" "control (choose_poll_interval s) = control s"
  by (simp_all add: choose_poll_interval_def view_defs control_def)

lemma send_failure_frame [simp]:
  "tx_view (RecordSendFailure t s) = tx_view s" "rx_view (RecordSendFailure t s) = rx_view s"
  "dev_ops (RecordSendFailure t s) = dev_ops s" "control (RecordSendFailure t s) = control s"
  by (simp_all add: RecordSendFailure_def view_defs control_def split: FrameType.split)

text \<open>The members a base-class operation does not know stay as they were.\<close>

lemma control_more: "link.more s' = link.more s \<Longrightarrow> control s' = control s"
  by (cases s; cases s') (simp add: control_def)

lemma control_ops [simp]:
  "control (dev c s) = control s"
  "control (CommitAckLocked a s) = control s"
  "control (snd (ConsumeDataFrameLocked f s)) = control s"
  "control (in_flight s) = control s"
  "control (clear_session s) = control s"
  by (rule control_more; simp add: frame_simps clear_session_def)+

text \<open>Whether a session is wanted is one bit, kept in two members.\<close>

definition mode_ok :: "coordinator \<Rightarrow> bool" where
  "mode_ok s \<longleftrightarrow> (connection_reset_required s \<longleftrightarrow> cstate s = ResetSync) \<and>
     (disconnected s \<longrightarrow> connection_reset_required s)"

lemma mode_ok_control: "control s' = control s \<Longrightarrow> mode_ok s' = mode_ok s"
  by (simp add: control_def mode_ok_def)

lemma control_mode:
  "control s' = control s \<Longrightarrow> mode_ok s' = mode_ok s \<and> cstate s' = cstate s \<and>
     connection_reset_required s' = connection_reset_required s \<and>
     disconnected s' = disconnected s \<and> peer_has_pending s' = peer_has_pending s"
  using mode_ok_control [of s' s] by (simp add: control_def)

lemma mode_ok_failure: "mode_ok s \<Longrightarrow> mode_ok (HandleTransactionFailure t ft s)"
  by (cases ft) (auto simp: HandleTransactionFailure_def Let_def mode_ok_def)

lemma mode_ok_after_exchange:
  "mode_ok s \<Longrightarrow> mode_ok (after_exchange t res s)"
  using mode_ok_failure by (cases res) (auto simp: after_exchange_def mode_ok_def)

section \<open>The request half of an exchange\<close>

text \<open>
  What a connected coordinator sends: a DATA frame with the fragment in flight, or a GRANT or PENDING
  frame; it always acknowledges the last number it accepted.
\<close>

lemma choose_eq:
  "ChooseCoordinatorTxFrame s =
     (let tx = empty_frame\<lparr>ack := ack_value s\<rparr>; t = in_flight s in
      if cstate s = ResetSync then
        (True, tx\<lparr>ftype := Reset\<rparr>, s\<lparr>last_tx_was_data := False\<rparr>)
      else if cstate s = Idle \<and>
          \<not> (has_data s \<and> peer_has_pending s \<and> consecutive_local_data_frames s \<ge> kFairDataBurstLimit)
      then
        if has_data s
        then (True, (data_frame t)\<lparr>pending := 1\<rparr>,
              t\<lparr>last_tx_was_data := True, c_tx_data_count := c_tx_data_count t + 1\<rparr>)
        else (True, tx\<lparr>ftype := Pending\<rparr>,
              s\<lparr>last_tx_was_data := False, c_tx_pending_count := c_tx_pending_count s + 1\<rparr>)
      else choose_grant (if has_data s then 1 else 0) tx s)"
proof (cases "has_data s")
  case True
  then have "BuildNextDataFrameLocked s = (True, data_frame (in_flight s), in_flight s)"
    by (intro build_some) (simp add: has_data_def)
  with True show ?thesis
    by (cases "cstate s")
      (simp_all add: ChooseCoordinatorTxFrame_def ChooseCoordinatorTxFrame_at_def Let_def
        has_data_def empty_frame_def)
next
  case False
  then show ?thesis
    by (cases "cstate s")
      (simp_all add: ChooseCoordinatorTxFrame_def ChooseCoordinatorTxFrame_at_def Let_def
        has_data_def empty_frame_def)
qed

text \<open>The type of the request, in the states of a session.\<close>

definition request_type :: "CoordinatorState \<Rightarrow> bool \<Rightarrow> FrameType" where
  "request_type state data = (if state \<noteq> Idle then Grant else if data then Data else Pending)"

lemma choose_type:
  assumes "ChooseCoordinatorTxFrame s = (ok, tx, s')" and "cstate s \<noteq> ResetSync"
    and "cstate s = Idle \<longrightarrow> \<not> peer_has_pending s"
  shows "ftype tx = request_type (cstate s) (has_data s) \<and> (ftype tx = Grant \<longrightarrow> arg tx = 3)"
  using assms
  by (auto simp: choose_eq Let_def choose_grant_def data_frame_def empty_frame_def
      request_type_def kDefaultBurstGrant_def split: if_splits)

lemma choose_connected:
  assumes "link_wf s" and "cstate s \<noteq> ResetSync"
  obtains tx s' where "ChooseCoordinatorTxFrame s = (True, tx, s')"
    and "frame_wf tx" and "request_ok tx" and "sends tx s s'" and "dev_ops s' = dev_ops s"
    and "control s' = control s"
proof -
  let ?g = "choose_grant (if has_data s then 1 else 0) (empty_frame\<lparr>ack := ack_value s\<rparr>) s"
  let ?f = "data_frame (in_flight s)"
  let ?sd = "(in_flight s)\<lparr>last_tx_was_data := True,
                           c_tx_data_count := c_tx_data_count (in_flight s) + 1\<rparr>"
  let ?p = "empty_frame\<lparr>ack := ack_value s, ftype := Pending\<rparr>"
  let ?sp = "s\<lparr>last_tx_was_data := False, c_tx_pending_count := c_tx_pending_count s + 1\<rparr>"
  consider (grant) "ChooseCoordinatorTxFrame s = ?g"
    | (data) "has_data s" "ChooseCoordinatorTxFrame s = (True, ?f\<lparr>pending := 1\<rparr>, ?sd)"
    | (pending) "ChooseCoordinatorTxFrame s = (True, ?p, ?sp)"
  proof (cases "cstate s = Idle \<and> \<not> (has_data s \<and> peer_has_pending s \<and>
            consecutive_local_data_frames s \<ge> kFairDataBurstLimit)")
    case True
    show thesis
    proof (cases "has_data s")
      case has: True
      show thesis by (rule data [OF has]) (use True has in \<open>simp add: choose_eq Let_def\<close>)
    next
      case has: False
      show thesis by (rule pending) (use True has in \<open>simp add: choose_eq Let_def\<close>)
    qed
  next
    case False
    show thesis
      by (rule grant) (use False assms(2) in \<open>simp only: choose_eq Let_def if_False if_True simp_thms\<close>)
  qed
  then show thesis
  proof cases
    case grant
    then show ?thesis
      by (intro that [of "fst (snd ?g)" "snd (snd ?g)"])
        (simp_all add: choose_grant_def control_frame_wf empty_frame_def control_def view_defs
          sends_def request_ok_def)
  next
    case pending
    then show ?thesis
      by (intro that [of ?p ?sp])
        (simp_all add: control_frame_wf empty_frame_def control_def view_defs
          sends_def request_ok_def)
  next
    case data
    have wf: "link_wf (in_flight s)"
      using link_wf_start assms(1) data(1) .
    then have "frame_wf ?f"
      by (intro data_frame_wf) (simp_all add: frame_simps)
    then have "frame_wf (?f\<lparr>pending := 1\<rparr>)"
      by (simp add: frame_wf_def)
    moreover have "tx_inflight_seq (in_flight s) = next_tx_seq s"
      using wf by (simp add: link_wf_def frame_simps)
    moreover have "ack_value (in_flight s) = ack_value s"
      by (rule ack_value_view) simp
    moreover have "control ?sd = control s"
      using control_ops(4) [of s] by (simp add: control_def)
    moreover have "tx_view ?sd = tx_view (in_flight s)" "rx_view ?sd = rx_view s"
      using in_flight_rx_view [of s] by (simp_all add: view_defs)
    ultimately show ?thesis
      using data by (intro that [of "?f\<lparr>pending := 1\<rparr>" ?sd])
        (simp_all add: data_frame_def tx_fragment_def frame_simps sends_def request_ok_def)
  qed
qed

lemma exchange_request_connected:
  assumes "link_wf s" and "cstate s \<noteq> ResetSync" and "exchange_request env s = Some (res, s')"
  obtains tx p where "written (dev_ops s') = written (dev_ops s) @ [p]"
    and "DecodeMacFrame p = Some tx" and "request_ok tx" and "sends tx s s'"
    and "control s' = control s" and "res = Inr tx \<or> res = Inl SendFailure"
    and "(cstate s = Idle \<longrightarrow> \<not> peer_has_pending s) \<longrightarrow>
           ftype tx = request_type (cstate s) (has_data s) \<and> (ftype tx = Grant \<longrightarrow> arg tx = 3)"
proof -
  obtain tx s1 where ch: "ChooseCoordinatorTxFrame s = (True, tx, s1)" "frame_wf tx"
      "request_ok tx" "sends tx s s1" "dev_ops s1 = dev_ops s" "control s1 = control s"
    using choose_connected [OF assms(1,2)] by blast
  obtain p where p: "EncodeMacFrame tx = Some p" "DecodeMacFrame p = Some tx"
    using encode_decode_wf [OF ch(2)] by blast
  from assms(3) ch(1) p(1) obtain result s2 where
    snd: "Send env p s1 = Some (result, s2)" and
    res: "(result = Success \<and> res = Inr tx \<and> s' = s2) \<or> (res = Inl SendFailure \<and>
      s' = (RecordSendFailure (ftype tx) (s2\<lparr>c_tx_send_fail_count := c_tx_send_fail_count s2 + 1\<rparr>))
             \<lparr>fail_log_counter := fail_log_counter (RecordSendFailure (ftype tx)
                (s2\<lparr>c_tx_send_fail_count := c_tx_send_fail_count s2 + 1\<rparr>)) + 1\<rparr>)"
    by (auto simp: exchange_request_def Let_def split: option.splits if_splits)
  define b where "b = s2\<lparr>c_tx_send_fail_count := c_tx_send_fail_count s2 + 1\<rparr>"
  have b: "tx_view b = tx_view s2" "rx_view b = rx_view s2" "dev_ops b = dev_ops s2"
      "control b = control s2"
    by (simp_all add: b_def view_defs control_def)
  define w where "w = RecordSendFailure (ftype tx) b"
  have w: "tx_view w = tx_view s2" "rx_view w = rx_view s2" "dev_ops w = dev_ops s2"
      "control w = control s2"
    using b by (simp_all add: w_def)
  have "s' = s2 \<or> s' = w\<lparr>fail_log_counter := fail_log_counter w + 1\<rparr>"
    using res by (auto simp: w_def b_def)
  moreover have "tx_view (w\<lparr>fail_log_counter := n\<rparr>) = tx_view w"
      "rx_view (w\<lparr>fail_log_counter := n\<rparr>) = rx_view w" "dev_ops (w\<lparr>fail_log_counter := n\<rparr>) = dev_ops w"
      "control (w\<lparr>fail_log_counter := n\<rparr>) = control w" for n
    by (simp_all add: view_defs control_def)
  ultimately have "tx_view s' = tx_view s2" "rx_view s' = rx_view s2" "dev_ops s' = dev_ops s2"
      "control s' = control s2"
    using w by auto
  moreover have "tx_view s2 = tx_view s1" "rx_view s2 = rx_view s1" "control s2 = control s1"
    using Send_view [OF snd] control_more [OF Send_frame(11) [OF snd]] by auto
  moreover have "written (dev_ops s2) = written (dev_ops s1) @ [p]"
    using Send_written [OF snd] EncodeMacFrame_length [OF p(1)] by simp
  ultimately show thesis
    using ch p res choose_type [OF ch(1) assms(2)]
    by (intro that [of p tx]) (auto simp: sends_def)
qed

section \<open>The response half\<close>

lemma apply_eq:
  "ApplyPeerResponse rx s =
     (let t = link_after rx s; u = t\<lparr>peer_has_pending := (pending rx \<noteq> 0)\<rparr> in
      if ftype rx = Data \<and> \<not> fst (ConsumeDataFrameLocked rx (CommitAckLocked (ack rx) s))
      then (False, t)
      else case ftype rx of
        Ack \<Rightarrow> (True, u\<lparr>c_rx_ack_count := c_rx_ack_count u + 1,
                       cstate := (if pending rx \<noteq> 0 then IssueGrant else Idle)\<rparr>)
      | Pending \<Rightarrow> (True, u\<lparr>c_rx_pending_count := c_rx_pending_count u + 1, cstate := IssueGrant\<rparr>)
      | Data \<Rightarrow> (True, u\<lparr>c_rx_data_count := c_rx_data_count u + 1,
                        cstate := (if pending rx \<noteq> 0 then ActiveRx else Idle)\<rparr>)
      | _ \<Rightarrow> (False, u))"
  by (cases "ftype rx") (simp_all add: ApplyPeerResponse_def link_after_def Let_def split_beta)

lemma apply_response_views:
  "tx_view (snd (ApplyPeerResponse rx s)) = tx_view (link_after rx s)"
  "rx_view (snd (ApplyPeerResponse rx s)) = rx_view (link_after rx s)"
  "dev_ops (snd (ApplyPeerResponse rx s)) = dev_ops (link_after rx s)"
  "connection_reset_required (snd (ApplyPeerResponse rx s))
     = connection_reset_required (link_after rx s)"
  "disconnected (snd (ApplyPeerResponse rx s)) = disconnected (link_after rx s)"
  by (cases "ftype rx"; simp add: apply_eq Let_def view_defs)+

lemma control_after [simp]: "control (link_after rx s) = control s"
  by (rule control_more) (simp add: frame_simps)

text \<open>What surrounds \<open>ApplyPeerResponse\<close> changes counters and may sleep.\<close>

lemma conclude_eq:
  "\<exists>n m ops. snd (conclude_exchange tx rx s) =
     (snd (ApplyPeerResponse rx (s\<lparr>c_idle_log_counter := m\<rparr>)))
       \<lparr>consecutive_local_data_frames := n,
        dev_ops := dev_ops (snd (ApplyPeerResponse rx (s\<lparr>c_idle_log_counter := m\<rparr>))) @ ops\<rparr> \<and>
     written ops = [] \<and> (\<forall>m. disciplined m ops) \<and> list_all short_sleep ops \<and>
     fst (conclude_exchange tx rx s) =
       (if fst (ApplyPeerResponse rx (s\<lparr>c_idle_log_counter := m\<rparr>))
        then Ex_Success else ProtocolFailure)"
proof -
  define m where "m = (if ftype tx = Pending \<and> ftype rx = Ack then c_idle_log_counter s + 1
    else c_idle_log_counter s)"
  obtain b v where v: "ApplyPeerResponse rx (s\<lparr>c_idle_log_counter := m\<rparr>) = (b, v)"
    by fastforce
  have "(if ftype tx = Pending \<and> ftype rx = Ack
         then s\<lparr>c_idle_log_counter := c_idle_log_counter s + 1\<rparr> else s) = s\<lparr>c_idle_log_counter := m\<rparr>"
    by (simp add: m_def)
  then have eq: "conclude_exchange tx rx s =
     (let w = (if b then (if ftype tx = Data \<and> ftype rx \<noteq> Data
                 then v\<lparr>consecutive_local_data_frames :=
                          of_nat (min (unat (consecutive_local_data_frames v) + 1) 255)\<rparr>
                 else if ftype tx \<noteq> Data \<or> ftype rx = Data
                 then v\<lparr>consecutive_local_data_frames := 0\<rparr> else v)
               else v\<lparr>consecutive_local_data_frames := 0\<rparr>)
      in (if b then Ex_Success else ProtocolFailure,
          if b \<and> (ftype tx = Data \<or> ftype rx = Data) then dev (Sleep kPostDataExchangeGapUs) w
          else w))"
    unfolding conclude_exchange_def Let_def by (simp add: v)
  define n where "n = (if b then (if ftype tx = Data \<and> ftype rx \<noteq> Data
      then of_nat (min (unat (consecutive_local_data_frames v) + 1) 255)
      else if ftype tx \<noteq> Data \<or> ftype rx = Data then 0 else consecutive_local_data_frames v) else 0)"
  define ops where "ops = (if b \<and> (ftype tx = Data \<or> ftype rx = Data)
      then [Sleep kPostDataExchangeGapUs] else [])"
  have "snd (conclude_exchange tx rx s) =
      v\<lparr>consecutive_local_data_frames := n, dev_ops := dev_ops v @ ops\<rparr>"
    by (simp add: eq n_def ops_def dev_def Let_def)
  moreover have "written ops = []" "\<forall>m. disciplined m ops" "list_all short_sleep ops"
    by (simp_all add: ops_def kPostDataExchangeGapUs_def)
  ultimately show ?thesis
    using v eq by (intro exI [of _ n] exI [of _ m] exI [of _ ops]) (simp add: Let_def)
qed

lemma conclude_views:
  "tx_view (snd (conclude_exchange tx rx s)) = tx_view (link_after rx s)"
  "rx_view (snd (conclude_exchange tx rx s)) = rx_view (link_after rx s)"
  "written (dev_ops (snd (conclude_exchange tx rx s))) = written (dev_ops s)"
  "connection_reset_required (snd (conclude_exchange tx rx s)) = connection_reset_required s"
  "disconnected (snd (conclude_exchange tx rx s)) = disconnected s"
proof -
  obtain n m ops where eq: "snd (conclude_exchange tx rx s) =
     (snd (ApplyPeerResponse rx (s\<lparr>c_idle_log_counter := m\<rparr>)))
       \<lparr>consecutive_local_data_frames := n,
        dev_ops := dev_ops (snd (ApplyPeerResponse rx (s\<lparr>c_idle_log_counter := m\<rparr>))) @ ops\<rparr>"
      and ops: "written ops = []"
    using conclude_eq [of tx rx s] by (elim exE conjE) (rule that)
  let ?u = "s\<lparr>c_idle_log_counter := m\<rparr>"
  have u: "tx_view ?u = tx_view s" "rx_view ?u = rx_view s" "dev_ops ?u = dev_ops s"
      "control ?u = control s"
    by (simp_all add: view_defs control_def)
  note views = apply_response_views [of rx ?u]
  have c: "control (link_after rx ?u) = control s"
    using u by simp
  show "tx_view (snd (conclude_exchange tx rx s)) = tx_view (link_after rx s)"
    "rx_view (snd (conclude_exchange tx rx s)) = rx_view (link_after rx s)"
    using views(1,2) link_after_cong [OF u(1,2), of rx] by (simp_all add: eq view_defs)
  show "written (dev_ops (snd (conclude_exchange tx rx s))) = written (dev_ops s)"
    using views(3) ops by (simp add: eq frame_simps)
  show "connection_reset_required (snd (conclude_exchange tx rx s)) = connection_reset_required s"
    "disconnected (snd (conclude_exchange tx rx s)) = disconnected s"
    using views(4,5) c by (simp_all add: eq control_def)
qed

text \<open>A response of the session moves the state machine to a connected state.\<close>

lemma conclude_ok:
  assumes "peer_frame_ok rx"
    and "ftype rx = Data \<Longrightarrow> fst (ConsumeDataFrameLocked rx s)"
  shows "fst (conclude_exchange tx rx s) = Ex_Success"
    and "cstate (snd (conclude_exchange tx rx s)) \<noteq> ResetSync"
    and "cstate (snd (conclude_exchange tx rx s)) = Idle \<longleftrightarrow>
           \<not> peer_has_pending (snd (conclude_exchange tx rx s))"
    and "cstate (snd (conclude_exchange tx rx s)) = Idle \<longleftrightarrow> ftype rx = Ack"
proof -
  obtain n m ops where eq: "snd (conclude_exchange tx rx s) =
     (snd (ApplyPeerResponse rx (s\<lparr>c_idle_log_counter := m\<rparr>)))
       \<lparr>consecutive_local_data_frames := n,
        dev_ops := dev_ops (snd (ApplyPeerResponse rx (s\<lparr>c_idle_log_counter := m\<rparr>))) @ ops\<rparr>"
      and res: "fst (conclude_exchange tx rx s) =
       (if fst (ApplyPeerResponse rx (s\<lparr>c_idle_log_counter := m\<rparr>))
        then Ex_Success else ProtocolFailure)"
    using conclude_eq [of tx rx s] by (elim exE conjE) (rule that)
  let ?u = "s\<lparr>c_idle_log_counter := m\<rparr>"
  have "rx_view (CommitAckLocked (ack rx) ?u) = rx_view s"
    by (simp add: rx_view_def frame_simps)
  then have "fst (ConsumeDataFrameLocked rx (CommitAckLocked (ack rx) ?u))" if "ftype rx = Data"
    using assms(2) [OF that] consume_cong(1) by blast
  with assms(1) show "fst (conclude_exchange tx rx s) = Ex_Success"
    "cstate (snd (conclude_exchange tx rx s)) \<noteq> ResetSync"
    "cstate (snd (conclude_exchange tx rx s)) = Idle \<longleftrightarrow>
       \<not> peer_has_pending (snd (conclude_exchange tx rx s))"
    "cstate (snd (conclude_exchange tx rx s)) = Idle \<longleftrightarrow> ftype rx = Ack"
    unfolding eq res by (auto simp: apply_eq Let_def peer_frame_ok_def)
qed

text \<open>A RESET is refused; the state machine stays where it is.\<close>

lemma conclude_reset:
  assumes "ftype rx = Reset" and "pending rx = 0"
  shows "fst (conclude_exchange tx rx s) = ProtocolFailure"
    and "cstate (snd (conclude_exchange tx rx s)) = cstate s"
    and "\<not> peer_has_pending (snd (conclude_exchange tx rx s))"
proof -
  obtain n m ops where eq: "snd (conclude_exchange tx rx s) =
     (snd (ApplyPeerResponse rx (s\<lparr>c_idle_log_counter := m\<rparr>)))
       \<lparr>consecutive_local_data_frames := n,
        dev_ops := dev_ops (snd (ApplyPeerResponse rx (s\<lparr>c_idle_log_counter := m\<rparr>))) @ ops\<rparr>"
      and res: "fst (conclude_exchange tx rx s) =
       (if fst (ApplyPeerResponse rx (s\<lparr>c_idle_log_counter := m\<rparr>))
        then Ex_Success else ProtocolFailure)"
    using conclude_eq [of tx rx s] by (elim exE conjE) (rule that)
  have "control (s\<lparr>c_idle_log_counter := m\<rparr>) = control s"
    by (simp add: control_def)
  then have "control (link_after rx (s\<lparr>c_idle_log_counter := m\<rparr>)) = control s"
    by simp
  then have "cstate (link_after rx (s\<lparr>c_idle_log_counter := m\<rparr>)) = cstate s"
    by (simp add: control_def)
  with assms show "fst (conclude_exchange tx rx s) = ProtocolFailure"
    "cstate (snd (conclude_exchange tx rx s)) = cstate s"
    "\<not> peer_has_pending (snd (conclude_exchange tx rx s))"
    unfolding eq res by (simp_all add: apply_eq Let_def)
qed

lemma exchange_response_cases:
  assumes "exchange_response env tx s = Some (res, s')"
  obtains (timeout) "res = TimeoutFailure" "tx_view s' = tx_view s" "rx_view s' = rx_view s"
      "control s' = control s" "written (dev_ops s') = written (dev_ops s)"
  | (reply) rx s0 where "res \<noteq> TimeoutFailure"
      "DecodeMacFrame (read_into (rx_fifo env) (replicate 32 0)) = Some rx"
      "tx_view s0 = tx_view s" "rx_view s0 = rx_view s" "control s0 = control s"
      "written (dev_ops s0) = written (dev_ops s)" "conclude_exchange tx rx s0 = (res, s')"
proof -
  from assms obtain result bs s0 where
    rcv: "Receive env (replicate 32 0) kResponseTimeoutUs s = Some (result, bs, s0)"
    by (auto simp: exchange_response_def split: option.splits)
  have v: "tx_view s0 = tx_view s" "rx_view s0 = rx_view s" "control s0 = control s"
      "written (dev_ops s0) = written (dev_ops s)"
    using Receive_view [OF rcv] control_more [OF Receive_frame(11) [OF rcv]] Receive_written [OF rcv]
    by auto
  show thesis
  proof (cases "result = Success")
    case False
    with assms rcv have "res = TimeoutFailure"
      "s' = s0\<lparr>c_rx_timeout_count := c_rx_timeout_count s0 + 1,
               fail_log_counter := fail_log_counter s0 + 1\<rparr>"
      by (auto simp: exchange_response_def)
    with v show thesis
      by (intro timeout) (auto simp: view_defs control_def)
  next
    case True
    then have bs: "bs = read_into (rx_fifo env) (replicate 32 0)"
      using Receive_Success rcv by blast
    then obtain rx where rx: "DecodeMacFrame bs = Some rx"
      by (auto simp: DecodeMacFrame_eq)
    with assms rcv True have con: "conclude_exchange tx rx s0 = (res, s')"
      by (auto simp: exchange_response_def)
    have "res \<noteq> TimeoutFailure"
      using conclude_eq [of tx rx s0] con by (auto split: if_splits)
    with rx bs con v show thesis
      by (intro reply) auto
  qed
qed

section \<open>The session reset\<close>

lemma encode_reset_frame: "EncodeMacFrame reset_frame = Some reset_packet"
  by (simp add: EncodeMacFrame_eq reset_frame_def empty_frame_def reset_packet_def)

lemma decode_reset_packet: "DecodeMacFrame reset_packet = Some reset_frame"
proof -
  have "frame_wf reset_frame"
    by (simp add: reset_frame_def control_frame_wf empty_frame_def)
  then show ?thesis
    using encode_decode_wf encode_reset_frame by fastforce
qed

lemma begin_reset_views:
  "tx_view (begin_reset s) = tx_view (clear_session s)"
  "rx_view (begin_reset s) = rx_view (clear_session s)"
  "written (dev_ops (begin_reset s)) = written (dev_ops s)"
  "control (begin_reset s) = (cstate s, connection_reset_required s, disconnected s, False)"
  by (simp_all add: begin_reset_def Let_def view_defs clear_session_def dev_def control_def)

lemma ConnectionReset_cases:
  assumes "ConnectionReset env s = Some (ok, s')"
  shows "tx_view s' = tx_view (clear_session s)" "rx_view s' = rx_view (clear_session s)"
    "control s' = (cstate s, connection_reset_required s, disconnected s, False)"
    "written (dev_ops s') = written (dev_ops s) @ [reset_packet]"
    "ok \<Longrightarrow> \<exists>rx. DecodeMacFrame (read_into (rx_fifo (x_recv env)) (replicate 32 0)) = Some rx \<and>
       ftype rx = Reset"
proof -
  from assms obtain result s1 where
    snd: "Send (x_send env) reset_packet (begin_reset s) = Some (result, s1)"
    by (auto simp: ConnectionReset_def Let_def encode_reset_frame split: option.splits)
  have v1: "tx_view s1 = tx_view (clear_session s)" "rx_view s1 = rx_view (clear_session s)"
      "control s1 = (cstate s, connection_reset_required s, disconnected s, False)"
      "written (dev_ops s1) = written (dev_ops s) @ [reset_packet]"
    using Send_view [OF snd] control_more [OF Send_frame(11) [OF snd]] Send_written [OF snd]
      begin_reset_views [of s] by (auto simp: reset_packet_def)
  have "tx_view s' = tx_view s1 \<and> rx_view s' = rx_view s1 \<and> control s' = control s1 \<and>
      written (dev_ops s') = written (dev_ops s1) \<and>
      (ok \<longrightarrow> (\<exists>rx. DecodeMacFrame (read_into (rx_fifo (x_recv env)) (replicate 32 0)) = Some rx \<and>
        ftype rx = Reset))"
  proof (cases "result = Success")
    case False
    with assms snd show ?thesis
      by (auto simp: ConnectionReset_def Let_def encode_reset_frame)
  next
    case True
    with assms snd obtain result' bs s2 where
      rcv: "Receive (x_recv env) (replicate 32 0) kResponseTimeoutUs s1 = Some (result', bs, s2)"
      by (auto simp: ConnectionReset_def Let_def encode_reset_frame split: option.splits)
    then have "tx_view s2 = tx_view s1 \<and> rx_view s2 = rx_view s1 \<and> control s2 = control s1 \<and>
        written (dev_ops s2) = written (dev_ops s1)"
      using Receive_view [OF rcv] control_more [OF Receive_frame(11) [OF rcv]]
        Receive_written [OF rcv] by simp
    with True assms snd rcv Receive_Success [of "x_recv env" _ _ s1 bs s2] show ?thesis
      by (auto simp: ConnectionReset_def Let_def encode_reset_frame
          split: option.splits if_splits)
  qed
  with v1 show "tx_view s' = tx_view (clear_session s)" "rx_view s' = rx_view (clear_session s)"
    "control s' = (cstate s, connection_reset_required s, disconnected s, False)"
    "written (dev_ops s') = written (dev_ops s) @ [reset_packet]"
    "ok \<Longrightarrow> \<exists>rx. DecodeMacFrame (read_into (rx_fifo (x_recv env)) (replicate 32 0)) = Some rx \<and>
       ftype rx = Reset"
    by auto
qed

end
