(* ===== verification/Peer.thy ===== *)
theory Peer
  imports Channel
begin

text \<open>
  \<open>SecondaryRadioInterface\<close> (\<open>secondary_radio_interface.h\<close>, \<open>secondary_radio_interface.cc\<close>): the
  peer, which answers the coordinator's frames. The record \<open>peer\<close> extends \<open>link\<close>; the members that
  both derived classes declare carry the prefix \<open>p_\<close>. \<open>prepare_response\<close> is what one pass of \<open>Run\<close>
  does with a decoded frame up to the response it sends, \<open>Peer_step\<close> the whole pass.
\<close>

section \<open>State\<close>

record peer = link +
  grant_budget :: u8
  granted_to_send :: bool
  p_idle_log_counter :: u64
  p_tx_pending_count :: u64
  p_tx_data_count :: u64
  p_tx_ack_count :: u64
  p_tx_reset_count :: u64
  p_rx_pending_count :: u64
  p_rx_grant_count :: u64
  p_rx_ack_count :: u64
  p_rx_data_count :: u64
  p_rx_reset_count :: u64
  p_tx_send_fail_count :: u64
  p_tx_send_fail_pending_count :: u64
  p_tx_send_fail_grant_count :: u64
  p_tx_send_fail_data_count :: u64
  p_tx_send_fail_ack_count :: u64
  p_tx_send_fail_reset_count :: u64
  p_last_stat_print_us :: u64

definition SecondaryRadioInterface :: "u32 \<Rightarrow> u32 \<Rightarrow> link \<Rightarrow> peer" where
  "SecondaryRadioInterface primary_addr secondary_addr base =
     (let s = link.extend base (peer.fields 0 False 0 0 0 0 0 0 0 0 0 0 0 0 0 0 0 0 0);
          s = dev (OpenWritingPipe (pipe_address secondary_addr)) s
      in dev (OpenReadingPipe kPipeId (pipe_address primary_addr)) s)"

section \<open>Applying a request\<close>

definition ApplyCoordinatorRequest :: "MacFrame \<Rightarrow> peer \<Rightarrow> bool \<times> peer" where
  "ApplyCoordinatorRequest request s =
     (let s = CommitAckLocked (ack request) s in
      case ftype request of
        Data \<Rightarrow>
          (case ConsumeDataFrameLocked request s of
             (consumed, s) \<Rightarrow>
               if \<not> consumed then (False, s)
               else (True, s\<lparr>granted_to_send := False, grant_budget := 0\<rparr>))
      | Grant \<Rightarrow>
          (let s = s\<lparr>grant_budget := arg request\<rparr>
           in (True, s\<lparr>granted_to_send := (grant_budget s > 0)\<rparr>))
      | Pending \<Rightarrow> (True, s\<lparr>granted_to_send := False, grant_budget := 0\<rparr>)
      | Ack \<Rightarrow> (True, s\<lparr>granted_to_send := False, grant_budget := 0\<rparr>)
      | _ \<Rightarrow> (False, s))"

section \<open>Choosing a response\<close>

text \<open>\<open>queued\<close>: packets the tunnel thread appends between the two locked regions.\<close>

definition ChoosePeerResponse_at :: "bytes list \<Rightarrow> peer \<Rightarrow> bool \<times> MacFrame \<times> peer" where
  "ChoosePeerResponse_at queued s =
     (let tx = empty_frame\<lparr>ack := ack_value s\<rparr>;
          local_has_data = (tx_in_flight s \<or> read_buffer s \<noteq> []);
          s = fold tunnel_push queued s;
          tx = tx\<lparr>pending := (if local_has_data then 1 else 0)\<rparr>
      in if granted_to_send s \<and> grant_budget s > 0 \<and> local_has_data then
           (case BuildNextDataFrameLocked s of
              (built, tx, s) \<Rightarrow>
                if \<not> built then (False, tx, s)
                else
                  let tx = tx\<lparr>pending := 1\<rparr>;
                      s = s\<lparr>grant_budget := grant_budget s - 1\<rparr>;
                      s = (if grant_budget s = 0 then s\<lparr>granted_to_send := False\<rparr> else s)
                  in (True, tx, s))
         else if local_has_data then (True, tx\<lparr>ftype := Pending, seq := 0, arg := 0\<rparr>, s)
         else (True, tx\<lparr>ftype := Ack, seq := 0, arg := 0\<rparr>, s))"

definition ChoosePeerResponse :: "peer \<Rightarrow> bool \<times> MacFrame \<times> peer" where
  "ChoosePeerResponse s = ChoosePeerResponse_at [] s"

section \<open>Counters\<close>

definition RecordRx :: "MacFrame \<Rightarrow> peer \<Rightarrow> peer" where
  "RecordRx rx s =
     (case ftype rx of
        Pending \<Rightarrow> s\<lparr>p_rx_pending_count := p_rx_pending_count s + 1\<rparr>
      | Grant \<Rightarrow> s\<lparr>p_rx_grant_count := p_rx_grant_count s + 1\<rparr>
      | Data \<Rightarrow> s\<lparr>p_rx_data_count := p_rx_data_count s + 1\<rparr>
      | Ack \<Rightarrow> s\<lparr>p_rx_ack_count := p_rx_ack_count s + 1\<rparr>
      | Reset \<Rightarrow> s\<lparr>p_rx_reset_count := p_rx_reset_count s + 1\<rparr>
      | _ \<Rightarrow> s)"

definition RecordTx :: "MacFrame \<Rightarrow> peer \<Rightarrow> peer" where
  "RecordTx tx s =
     (case ftype tx of
        Pending \<Rightarrow> s\<lparr>p_tx_pending_count := p_tx_pending_count s + 1\<rparr>
      | Data \<Rightarrow> s\<lparr>p_tx_data_count := p_tx_data_count s + 1\<rparr>
      | Ack \<Rightarrow> s\<lparr>p_tx_ack_count := p_tx_ack_count s + 1\<rparr>
      | Reset \<Rightarrow> s\<lparr>p_tx_reset_count := p_tx_reset_count s + 1\<rparr>
      | _ \<Rightarrow> s)"

definition PeerRecordSendFailure :: "FrameType \<Rightarrow> peer \<Rightarrow> peer" where
  "PeerRecordSendFailure frame_type s =
     (case frame_type of
        Pending \<Rightarrow> s\<lparr>p_tx_send_fail_pending_count := p_tx_send_fail_pending_count s + 1\<rparr>
      | Grant \<Rightarrow> s\<lparr>p_tx_send_fail_grant_count := p_tx_send_fail_grant_count s + 1\<rparr>
      | Data \<Rightarrow> s\<lparr>p_tx_send_fail_data_count := p_tx_send_fail_data_count s + 1\<rparr>
      | Ack \<Rightarrow> s\<lparr>p_tx_send_fail_ack_count := p_tx_send_fail_ack_count s + 1\<rparr>
      | Reset \<Rightarrow> s\<lparr>p_tx_send_fail_reset_count := p_tx_send_fail_reset_count s + 1\<rparr>
      | _ \<Rightarrow> s)"

section \<open>Session reset\<close>

definition peer_reset_frame :: MacFrame where
  "peer_reset_frame = empty_frame\<lparr>ftype := Reset, seq := 0, ack := 0, pending := 0, arg := 0\<rparr>"

definition begin_peer_reset :: "peer \<Rightarrow> peer" where
  "begin_peer_reset s = (clear_session s)\<lparr>granted_to_send := False, grant_budget := 0\<rparr>"

definition HandleReset :: "send_env \<Rightarrow> peer \<Rightarrow> (bool \<times> peer) option" where
  "HandleReset env s =
     (let s = begin_peer_reset s; tx = peer_reset_frame in
      case EncodeMacFrame tx of
        None \<Rightarrow> Some (False, s)
      | Some response \<Rightarrow>
          (case Send env response s of
             None \<Rightarrow> None
           | Some (result, s) \<Rightarrow>
               if result \<noteq> Success then
                 Some (False, PeerRecordSendFailure (ftype tx)
                                (s\<lparr>p_tx_send_fail_count := p_tx_send_fail_count s + 1\<rparr>))
               else Some (True, RecordTx tx s)))"

section \<open>One pass of the main loop\<close>

text \<open>
  The part of the pass between \<open>RecordRx\<close> and \<open>Send\<close> for a frame other than RESET: the response and
  its encoding, if the pass gets that far.
\<close>

definition prepare_response :: "MacFrame \<Rightarrow> peer \<Rightarrow> (MacFrame \<times> bytes) option \<times> peer" where
  "prepare_response rx s =
     (case ApplyCoordinatorRequest rx s of
        (applied, s) \<Rightarrow>
          if \<not> applied then (None, s)
          else case ChoosePeerResponse s of
            (chosen, tx, s) \<Rightarrow>
              if \<not> chosen then (None, s)
              else case EncodeMacFrame tx of
                None \<Rightarrow> (None, s)
              | Some response \<Rightarrow> (Some (tx, response), s))"

definition peer_stats :: "u64 \<Rightarrow> peer \<Rightarrow> peer" where
  "peer_stats stat_now_us s =
     (let s = (if p_last_stat_print_us s = 0 then s\<lparr>p_last_stat_print_us := stat_now_us\<rparr> else s)
      in if stat_now_us - p_last_stat_print_us s \<ge> 1000000
         then s\<lparr>p_last_stat_print_us := stat_now_us\<rparr> else s)"

definition answer_request :: "send_env \<Rightarrow> u64 \<Rightarrow> MacFrame \<Rightarrow> peer \<Rightarrow> peer option" where
  "answer_request env stat_now_us rx s =
     (let s = RecordRx rx s in
      if ftype rx = Reset then map_option snd (HandleReset env s)
      else case prepare_response rx s of
        (None, s) \<Rightarrow> Some s
      | (Some (tx, response), s) \<Rightarrow>
          (case Send env response s of
             None \<Rightarrow> None
           | Some (result, s) \<Rightarrow>
               (let s = (if result \<noteq> Success
                         then PeerRecordSendFailure (ftype tx)
                                (s\<lparr>p_tx_send_fail_count := p_tx_send_fail_count s + 1\<rparr>)
                         else s);
                    s = RecordTx tx s;
                    is_idle_pair = (ftype rx = Pending \<and> ftype tx = Ack);
                    s = (if is_idle_pair then s\<lparr>p_idle_log_counter := p_idle_log_counter s + 1\<rparr>
                         else s)
                in Some (peer_stats stat_now_us s))))"

record peer_env =
  pe_recv :: recv_env
  pe_send :: send_env
  pe_stat_now :: u64

definition Peer_step :: "peer_env \<Rightarrow> peer \<Rightarrow> peer option" where
  "Peer_step env s =
     (case Receive (pe_recv env) (replicate kMaxPacketSize 0) 0 s of
        None \<Rightarrow> None
      | Some (result, request, s) \<Rightarrow>
          if result \<noteq> Success then Some s
          else case DecodeMacFrame request of
            None \<Rightarrow> Some s
          | Some rx \<Rightarrow> answer_request (pe_send env) (pe_stat_now env) rx s)"

section \<open>Lemmas\<close>

lemma peer_counters_frame [simp]:
  "tx_view (RecordRx f s) = tx_view s" "rx_view (RecordRx f s) = rx_view s"
  "dev_ops (RecordRx f s) = dev_ops s"
  "tx_view (RecordTx f s) = tx_view s" "rx_view (RecordTx f s) = rx_view s"
  "dev_ops (RecordTx f s) = dev_ops s"
  "tx_view (PeerRecordSendFailure t s) = tx_view s" "rx_view (PeerRecordSendFailure t s) = rx_view s"
  "dev_ops (PeerRecordSendFailure t s) = dev_ops s"
  "tx_view (peer_stats n s) = tx_view s" "rx_view (peer_stats n s) = rx_view s"
  "dev_ops (peer_stats n s) = dev_ops s"
  by (simp_all add: RecordRx_def RecordTx_def PeerRecordSendFailure_def peer_stats_def Let_def
      view_defs split: FrameType.split)

text \<open>The grant as a pair; no operation of the base class touches it.\<close>

definition grant_of :: "peer \<Rightarrow> bool \<times> u8" where
  "grant_of s = (granted_to_send s, grant_budget s)"

lemma grant_more: "link.more s' = link.more s \<Longrightarrow> grant_of s' = grant_of s"
  by (cases s; cases s') (simp add: grant_of_def)

lemma grant_ops [simp]:
  "grant_of (CommitAckLocked a s) = grant_of s"
  "grant_of (snd (ConsumeDataFrameLocked f s)) = grant_of s"
  "grant_of (in_flight s) = grant_of s"
  by (rule grant_more; simp add: frame_simps)+

section \<open>The response to a request\<close>

lemma peer_choose_eq:
  "ChoosePeerResponse s =
     (let tx = empty_frame\<lparr>ack := ack_value s, pending := (if has_data s then 1 else 0)\<rparr>;
          t = in_flight s in
      if granted_to_send s \<and> grant_budget s > 0 \<and> has_data s then
        (True, (data_frame t)\<lparr>pending := 1\<rparr>,
         t\<lparr>grant_budget := grant_budget s - 1,
           granted_to_send := (grant_budget s - 1 \<noteq> 0)\<rparr>)
      else (True, tx\<lparr>ftype := (if has_data s then Pending else Ack)\<rparr>, s))"
proof (cases "granted_to_send s \<and> grant_budget s > 0 \<and> has_data s")
  case True
  then have build: "BuildNextDataFrameLocked s = (True, data_frame (in_flight s), in_flight s)"
    by (intro build_some) (simp add: has_data_def)
  have "granted_to_send (in_flight s) = granted_to_send s"
      "grant_budget (in_flight s) = grant_budget s"
    using grant_ops(3) [of s] by (simp_all add: grant_of_def)
  with True build show ?thesis
    by (simp add: ChoosePeerResponse_def ChoosePeerResponse_at_def Let_def has_data_def)
next
  case False
  then show ?thesis
    by (auto simp: ChoosePeerResponse_def ChoosePeerResponse_at_def Let_def has_data_def
        empty_frame_def)
qed

lemma peer_choose:
  assumes "link_wf s"
  obtains tx s' where "ChoosePeerResponse s = (True, tx, s')" and "frame_wf tx"
    and "peer_frame_ok tx" and "sends tx s s'" and "dev_ops s' = dev_ops s"
    and "ftype tx = (if has_data s then if granted_to_send s \<and> grant_budget s > 0 then Data
           else Pending else Ack)"
proof (cases "granted_to_send s \<and> grant_budget s > 0 \<and> has_data s")
  case True
  let ?f = "data_frame (in_flight s)"
  let ?s = "(in_flight s)\<lparr>grant_budget := grant_budget s - 1,
              granted_to_send := (grant_budget s - 1 \<noteq> 0)\<rparr>"
  have wf: "link_wf (in_flight s)"
    using link_wf_start assms True by blast
  then have "frame_wf ?f"
    by (intro data_frame_wf) (simp_all add: frame_simps)
  then have "frame_wf (?f\<lparr>pending := 1\<rparr>)"
    by (simp add: frame_wf_def)
  moreover have "tx_inflight_seq (in_flight s) = next_tx_seq s"
    using wf by (simp add: link_wf_def frame_simps)
  moreover have "ack_value (in_flight s) = ack_value s"
    by (rule ack_value_view) simp
  moreover have "tx_view ?s = tx_view (in_flight s)" "rx_view ?s = rx_view s"
    using in_flight_rx_view [of s] by (simp_all add: view_defs)
  moreover have "ChoosePeerResponse s = (True, ?f\<lparr>pending := 1\<rparr>, ?s)"
    using True by (simp add: peer_choose_eq Let_def)
  ultimately show thesis
    using True by (intro that [of "?f\<lparr>pending := 1\<rparr>" ?s])
      (simp_all add: data_frame_def tx_fragment_def frame_simps peer_frame_ok_def sends_def)
next
  case False
  let ?t = "empty_frame\<lparr>ack := ack_value s, pending := (if has_data s then 1 else 0),
              ftype := (if has_data s then Pending else Ack)\<rparr>"
  have "ChoosePeerResponse s = (True, ?t, s)"
    by (simp only: peer_choose_eq Let_def False if_False)
  with False show thesis
    by (intro that [of ?t s])
      (auto simp: control_frame_wf empty_frame_def peer_frame_ok_def sends_def split: if_splits)
qed

lemma apply_request_eq:
  "ApplyCoordinatorRequest rx s =
     (let t = link_after rx s in
      case ftype rx of
        Data \<Rightarrow>
          if fst (ConsumeDataFrameLocked rx (CommitAckLocked (ack rx) s))
          then (True, t\<lparr>granted_to_send := False, grant_budget := 0\<rparr>) else (False, t)
      | Grant \<Rightarrow> (True, t\<lparr>grant_budget := arg rx, granted_to_send := (arg rx > 0)\<rparr>)
      | Pending \<Rightarrow> (True, t\<lparr>granted_to_send := False, grant_budget := 0\<rparr>)
      | Ack \<Rightarrow> (True, t\<lparr>granted_to_send := False, grant_budget := 0\<rparr>)
      | _ \<Rightarrow> (False, t))"
  by (cases "ftype rx") (simp_all add: ApplyCoordinatorRequest_def link_after_def Let_def split_beta)

lemma apply_request_views:
  "tx_view (snd (ApplyCoordinatorRequest rx s)) = tx_view (link_after rx s)"
  "rx_view (snd (ApplyCoordinatorRequest rx s)) = rx_view (link_after rx s)"
  "dev_ops (snd (ApplyCoordinatorRequest rx s)) = dev_ops s"
  by (cases "ftype rx"; simp add: apply_request_eq Let_def view_defs frame_simps)+

text \<open>Only a GRANT allows the next response to carry data.\<close>

lemma apply_request_grant:
  "fst (ApplyCoordinatorRequest rx s) \<Longrightarrow>
     (granted_to_send (snd (ApplyCoordinatorRequest rx s)) \<and>
      grant_budget (snd (ApplyCoordinatorRequest rx s)) > 0) \<longleftrightarrow> ftype rx = Grant \<and> arg rx > 0"
  by (cases "ftype rx") (simp_all add: apply_request_eq Let_def split: if_splits)

definition response_type :: "MacFrame \<Rightarrow> bool \<Rightarrow> FrameType" where
  "response_type rx data =
     (if data then if ftype rx = Grant \<and> arg rx > 0 then Data else Pending else Ack)"

text \<open>Either the request is refused and the pass ends, or a response is prepared.\<close>

lemma prepare_response_cases:
  assumes wf: "link_wf s"
  obtains (refused) t where "prepare_response rx s = (None, t)"
      "\<not> fst (ApplyCoordinatorRequest rx s)" "tx_view t = tx_view (link_after rx s)"
      "rx_view t = rx_view (link_after rx s)" "dev_ops t = dev_ops s"
  | (answered) tx p t where "prepare_response rx s = (Some (tx, p), t)"
      "DecodeMacFrame p = Some tx" "length p = 32" "peer_frame_ok tx" "dev_ops t = dev_ops s"
      "sends tx (link_after rx s) t" "ftype tx = response_type rx (has_data (link_after rx s))"
proof (cases "fst (ApplyCoordinatorRequest rx s)")
  case False
  then show thesis
    using apply_request_views [of rx s]
    by (intro refused [of "snd (ApplyCoordinatorRequest rx s)"])
      (simp_all add: prepare_response_def split_beta)
next
  case True
  define u where "u = snd (ApplyCoordinatorRequest rx s)"
  note views = apply_request_views [of rx s, folded u_def]
  have "link_wf u"
    using link_wf_view [OF views(1,2)] link_wf_after [OF wf] by simp
  from peer_choose [OF this] obtain tx t where ch: "ChoosePeerResponse u = (True, tx, t)"
      "frame_wf tx" "peer_frame_ok tx" "sends tx u t" "dev_ops t = dev_ops u"
      "ftype tx = (if has_data u then if granted_to_send u \<and> grant_budget u > 0 then Data
         else Pending else Ack)"
    by blast
  obtain p where p: "EncodeMacFrame tx = Some p" "DecodeMacFrame p = Some tx"
    using encode_decode_wf [OF ch(2)] by blast
  have "prepare_response rx s = (Some (tx, p), t)"
    using True ch(1) p(1) by (simp add: prepare_response_def split_beta u_def)
  moreover have "sends tx (link_after rx s) t"
    using ch(4) sends_cong views(1,2) by blast
  moreover have "ftype tx = response_type rx (has_data (link_after rx s))"
    using ch(6) apply_request_grant [OF True] views(1)
    by (simp add: response_type_def u_def has_data_def tx_view_def)
  ultimately show thesis
    using ch p EncodeMacFrame_length [OF p(1)] views
    by (intro answered [of tx p t]) simp_all
qed

text \<open>The request of a session is applied unless its fragment is out of order.\<close>

lemma apply_request_ok:
  assumes "request_ok rx" and "ftype rx = Data \<Longrightarrow> fst (ConsumeDataFrameLocked rx s)"
  shows "fst (ApplyCoordinatorRequest rx s)"
proof -
  have "rx_view (CommitAckLocked (ack rx) s) = rx_view s"
    by (simp add: rx_view_def frame_simps)
  then have "fst (ConsumeDataFrameLocked rx (CommitAckLocked (ack rx) s))" if "ftype rx = Data"
    using assms(2) [OF that] consume_cong(1) by blast
  with assms(1) show ?thesis
    by (auto simp: apply_request_eq request_ok_def Let_def)
qed

text \<open>A whole pass on a request that is not a RESET.\<close>

lemma answer_request_cases:
  assumes wf: "link_wf s" and "ftype rx \<noteq> Reset" and ans: "answer_request env now_us rx s = Some s'"
  obtains (refused) "\<not> fst (ApplyCoordinatorRequest rx (RecordRx rx s))"
      "tx_view s' = tx_view (link_after rx s)" "rx_view s' = rx_view (link_after rx s)"
      "written (dev_ops s') = written (dev_ops s)"
  | (answered) tx p where "written (dev_ops s') = written (dev_ops s) @ [p]"
      "DecodeMacFrame p = Some tx" "peer_frame_ok tx" "sends tx (link_after rx s) s'"
      "ftype tx = response_type rx (has_data (link_after rx s))"
proof -
  let ?s = "RecordRx rx s"
  have wf': "link_wf ?s"
    using wf link_wf_view [of ?s s] by simp
  have v: "tx_view (link_after rx ?s) = tx_view (link_after rx s)"
      "rx_view (link_after rx ?s) = rx_view (link_after rx s)"
    by (rule link_after_cong; simp)+
  show thesis
  proof (cases rule: prepare_response_cases [OF wf', of rx])
    case (1 t)
    then have "s' = t"
      using ans assms(2) by (simp add: answer_request_def Let_def)
    with 1 v show thesis by (intro refused) simp_all
  next
    case (2 tx p t)
    then obtain result u where snd: "Send env p t = Some (result, u)"
      using ans assms(2) by (auto simp: answer_request_def Let_def split: option.splits)
    define w where "w = (if result \<noteq> Success
      then PeerRecordSendFailure (ftype tx) (u\<lparr>p_tx_send_fail_count := p_tx_send_fail_count u + 1\<rparr>)
      else u)"
    define x where "x = (if ftype rx = Pending \<and> ftype tx = Ack
      then (RecordTx tx w)\<lparr>p_idle_log_counter := p_idle_log_counter (RecordTx tx w) + 1\<rparr>
      else RecordTx tx w)"
    have s': "s' = peer_stats now_us x"
      using 2(1) snd ans assms(2)
      by (auto simp: answer_request_def Let_def w_def x_def split: if_splits)
    have w: "tx_view w = tx_view u" "rx_view w = rx_view u" "dev_ops w = dev_ops u"
      using peer_counters_frame(7-9) [of "ftype tx"
          "u\<lparr>p_tx_send_fail_count := p_tx_send_fail_count u + 1\<rparr>"]
      by (simp_all add: w_def view_defs)
    have x: "tx_view x = tx_view w" "rx_view x = rx_view w" "dev_ops x = dev_ops w"
      using peer_counters_frame(4-6) [of tx w] by (simp_all add: x_def view_defs)
    have u: "tx_view u = tx_view t" "rx_view u = rx_view t"
        "written (dev_ops u) = written (dev_ops t) @ [p]"
      using Send_view [OF snd] Send_written [OF snd] 2(3) by simp_all
    have "tx_view s' = tx_view t" "rx_view s' = rx_view t"
        "written (dev_ops s') = written (dev_ops s) @ [p]"
      using s' w x u 2(5) by simp_all
    moreover from this have "sends tx (link_after rx s) s'"
      using sends_views [OF sends_cong [OF 2(6) v]] by blast
    moreover have "has_data (link_after rx ?s) = has_data (link_after rx s)"
      using v(1) by (simp add: tx_view_def has_data_def)
    ultimately show thesis
      using 2(2,4,7) by (intro answered [of p tx]) simp_all
  qed
qed

lemma peer_reset_encode: "EncodeMacFrame peer_reset_frame = Some reset_packet"
  by (simp add: EncodeMacFrame_eq peer_reset_frame_def empty_frame_def reset_packet_def)

lemma peer_reset_type: "ftype peer_reset_frame = Reset"
  by (simp add: peer_reset_frame_def)

lemma HandleReset_views:
  assumes "HandleReset env s = Some (ok, s')"
  shows "tx_view s' = tx_view (clear_session s)" "rx_view s' = rx_view (clear_session s)"
    "written (dev_ops s') = written (dev_ops s) @ [reset_packet]"
proof -
  let ?s = "begin_peer_reset s"
  have b: "tx_view ?s = tx_view (clear_session s)" "rx_view ?s = rx_view (clear_session s)"
      "dev_ops ?s = dev_ops s"
    by (simp_all add: begin_peer_reset_def clear_session_def view_defs)
  from assms obtain result u where snd: "Send env reset_packet ?s = Some (result, u)"
    by (auto simp: HandleReset_def Let_def peer_reset_encode split: option.splits)
  have u: "tx_view u = tx_view ?s" "rx_view u = rx_view ?s"
      "written (dev_ops u) = written (dev_ops ?s) @ [reset_packet]"
    using Send_view [OF snd] Send_written [OF snd] by (simp_all add: reset_packet_def)
  let ?w = "u\<lparr>p_tx_send_fail_count := p_tx_send_fail_count u + 1\<rparr>"
  have "s' = (if result \<noteq> Success then PeerRecordSendFailure Reset ?w
      else RecordTx peer_reset_frame u)"
    using assms snd
    by (auto simp: HandleReset_def Let_def peer_reset_encode peer_reset_type split: if_splits)
  moreover have "tx_view ?w = tx_view u" "rx_view ?w = rx_view u" "dev_ops ?w = dev_ops u"
    by (simp_all add: view_defs)
  ultimately have "tx_view s' = tx_view u" "rx_view s' = rx_view u" "dev_ops s' = dev_ops u"
    by simp_all
  with u b show "tx_view s' = tx_view (clear_session s)" "rx_view s' = rx_view (clear_session s)"
    "written (dev_ops s') = written (dev_ops s) @ [reset_packet]"
    by simp_all
qed

lemma Peer_step_cases:
  assumes "Peer_step env s = Some s'"
  obtains (idle) "WaitForRxReady (pe_recv env) (irq_line s \<noteq> None) 0 \<noteq> Some Success"
      "tx_view s' = tx_view s" "rx_view s' = rx_view s" "written (dev_ops s') = written (dev_ops s)"
  | (handled) rx s0 where "WaitForRxReady (pe_recv env) (irq_line s \<noteq> None) 0 = Some Success"
      "DecodeMacFrame (read_into (rx_fifo (pe_recv env)) (replicate 32 0)) = Some rx"
      "tx_view s0 = tx_view s" "rx_view s0 = rx_view s" "link.more s0 = link.more s"
      "written (dev_ops s0) = written (dev_ops s)"
      "answer_request (pe_send env) (pe_stat_now env) rx s0 = Some s'"
proof -
  from assms obtain result bs s0 where
    rcv: "Receive (pe_recv env) (replicate 32 0) 0 s = Some (result, bs, s0)"
    by (auto simp: Peer_step_def split: option.splits)
  then have wait: "WaitForRxReady (pe_recv env) (irq_line s \<noteq> None) 0 = Some result"
    by (auto simp: Receive_def Let_def frame_simps split: option.splits if_splits)
  have v: "tx_view s0 = tx_view s" "rx_view s0 = rx_view s" "link.more s0 = link.more s"
      "written (dev_ops s0) = written (dev_ops s)"
    using Receive_view [OF rcv] Receive_frame(11) [OF rcv] Receive_written [OF rcv] by auto
  show thesis
  proof (cases "result = Success")
    case False
    with assms rcv v wait show thesis
      by (intro idle) (auto simp: Peer_step_def)
  next
    case True
    then have bs: "bs = read_into (rx_fifo (pe_recv env)) (replicate 32 0)"
      using Receive_Success rcv by blast
    then obtain rx where "DecodeMacFrame bs = Some rx"
      by (auto simp: DecodeMacFrame_eq)
    with assms rcv True bs v wait show thesis
      by (intro handled [of rx s0]) (auto simp: Peer_step_def)
  qed
qed

lemma Peer_step_wf:
  assumes "Peer_step env s = Some s'" and wf: "link_wf s"
  shows "link_wf s'"
  using assms(1)
proof (cases rule: Peer_step_cases)
  case idle
  with wf link_wf_view show ?thesis by blast
next
  case (handled rx s0)
  have wf0: "link_wf s0"
    using wf link_wf_view [OF handled(3,4)] by simp
  show ?thesis
  proof (cases "ftype rx = Reset")
    case True
    with handled(7) obtain ok where hr: "HandleReset (pe_send env) (RecordRx rx s0) = Some (ok, s')"
      by (auto simp: answer_request_def Let_def)
    have "link_wf (clear_session (RecordRx rx s0))"
      using wf0 link_wf_view [of "RecordRx rx s0" s0] by (simp add: link_wf_clear)
    then show ?thesis
      using link_wf_view [OF HandleReset_views(1,2) [OF hr]] by simp
  next
    case False
    from wf0 False handled(7) show ?thesis
    proof (cases rule: answer_request_cases)
      case refused
      then show ?thesis
        using link_wf_view [OF refused(2,3)] link_wf_after [OF wf0] by simp
    next
      case (answered tx p)
      then show ?thesis
        using sends_wf link_wf_after [OF wf0] by blast
    qed
  qed
qed

section \<open>Properties\<close>

text \<open>As for the coordinator: packets the tunnel thread queues between the
  two locked regions of \<open>ChoosePeerResponse\<close> do not influence the response, and the state is as if
  they had been queued afterwards.\<close>

lemma peer_choose_is_atomic:
  "ChoosePeerResponse_at queued s =
     (case ChoosePeerResponse s of (ok, tx, s') \<Rightarrow> (ok, tx, fold tunnel_push queued s'))"
proof (cases "has_data s")
  case True
  have build: "BuildNextDataFrameLocked (s\<lparr>read_buffer := read_buffer s @ ps\<rparr>)
      = (True, data_frame (fold tunnel_push ps (in_flight s)),
         (in_flight s)\<lparr>read_buffer := read_buffer s @ ps\<rparr>)" for ps
    using build_push [OF True, of ps] by (simp add: fold_push frame_simps)
  from build [of "[]"] build [of queued] True show ?thesis
    by (simp add: ChoosePeerResponse_def ChoosePeerResponse_at_def Let_def has_data_def fold_push
        data_frame_queue)
next
  case False
  then show ?thesis
    by (auto simp: ChoosePeerResponse_def ChoosePeerResponse_at_def Let_def has_data_def fold_push)
qed

text \<open>C15. The peer's answer to a frame other than RESET. It stays silent exactly
  for an out-of-order DATA frame and for frames a coordinator does not send; otherwise the response
  acknowledges the last accepted number, announces whether the queue has data, and is DATA if and
  only if the frame is a GRANT with a positive budget and there is data. Grants of earlier frames
  have no influence, so a grant is worth one DATA frame whatever its budget.\<close>

theorem peer_response_table:
  assumes "link_wf s"
  shows "case prepare_response rx (s\<lparr>granted_to_send := g, grant_budget := b\<rparr>) of (res, s') \<Rightarrow>
    let data = has_data (link_after rx s) in
    (res = None \<longleftrightarrow> ftype rx \<notin> {Data, Grant, Pending, Ack} \<or>
       ftype rx = Data \<and> \<not> fst (ConsumeDataFrameLocked rx s)) \<and>
    (\<forall>(tx, p) \<in> set_option res.
       DecodeMacFrame p = Some tx \<and> ack tx = ack_value (link_after rx s) \<and>
       pending tx = (if data then 1 else 0) \<and>
       ftype tx = (if data then if ftype rx = Grant \<and> arg rx > 0 then Data else Pending else Ack))"
proof -
  let ?s = "s\<lparr>granted_to_send := g, grant_budget := b\<rparr>"
  define u where "u = snd (ApplyCoordinatorRequest rx ?s)"
  have eqs: "tx_view ?s = tx_view s" "rx_view ?s = rx_view s"
    by (simp_all add: view_defs)
  have v: "tx_view u = tx_view (link_after rx s)" "rx_view u = rx_view (link_after rx s)"
    using apply_request_views(1,2) [of rx ?s] link_after_cong [OF eqs, of rx] by (simp_all add: u_def)
  then have same: "has_data u = has_data (link_after rx s)" "ack_value u = ack_value (link_after rx s)"
    by (simp_all add: view_defs has_data_def ack_value_def)
  have "link_wf u"
    using link_wf_view [OF v] link_wf_after [OF assms] by simp
  from peer_choose [OF this] obtain tx t where
    ch: "ChoosePeerResponse u = (True, tx, t)" and tx: "frame_wf tx" "sends tx u t"
    by blast
  obtain p where p: "EncodeMacFrame tx = Some p" "DecodeMacFrame p = Some tx"
    using encode_decode_wf [OF tx(1)] by blast
  have "rx_view (CommitAckLocked (ack rx) ?s) = rx_view s"
    by (simp add: rx_view_def frame_simps)
  note same_consume = consume_cong(1) [OF this, of rx]
  have applied: "fst (ApplyCoordinatorRequest rx ?s) \<longleftrightarrow> ftype rx \<in> {Grant, Pending, Ack} \<or>
       ftype rx = Data \<and> fst (ConsumeDataFrameLocked rx s)"
    using same_consume by (cases "ftype rx") (simp_all add: apply_request_eq Let_def)
  note grant = apply_request_grant [of rx ?s, folded u_def]
  have res: "prepare_response rx ?s = (if fst (ApplyCoordinatorRequest rx ?s)
      then (Some (tx, p), t) else (None, u))"
    using ch p(1) by (simp add: prepare_response_def split_beta u_def)
  have "ftype tx = (if has_data u then if granted_to_send u \<and> grant_budget u > 0 then Data else Pending
      else Ack)" "pending tx = (if has_data u then 1 else 0)"
    using ch by (auto simp: peer_choose_eq Let_def data_frame_def empty_frame_def split: if_splits)
  moreover have "ack tx = ack_value u"
    using tx(2) by (simp add: sends_def)
  ultimately show ?thesis
    unfolding res using applied grant same p(2)
    by (cases "fst (ApplyCoordinatorRequest rx ?s)") (auto simp: Let_def)
qed

definition start_peer :: peer where
  "start_peer = SecondaryRadioInterface 1 2 (RadioInterface_init 0)"

lemma start_peer_views:
  "tx_view start_peer = tx_view (RadioInterface_init 0)"
  "rx_view start_peer = rx_view (RadioInterface_init 0)"
  by (simp_all add: start_peer_def SecondaryRadioInterface_def Let_def view_defs dev_def link.defs)

text \<open>A GRANT to a peer with one queued packet is answered with DATA.\<close>

theorem peer_response_table_witness:
  "case prepare_response (empty_frame\<lparr>ftype := Grant, arg := 3\<rparr>)
      ((tunnel_push [1, 2, 3] start_peer)\<lparr>granted_to_send := False, grant_budget := 0\<rparr>) of
     (res, s') \<Rightarrow> \<exists>tx p. res = Some (tx, p) \<and> ftype tx = Data"
proof -
  let ?s = "tunnel_push [1, 2, 3] start_peer" and ?f = "empty_frame\<lparr>ftype := Grant, arg := 3\<rparr>"
  have "link_wf start_peer"
    using link_wf_view [OF start_peer_views] link_wf_init by simp
  then have "link_wf ?s"
    by (intro link_wf_push) simp_all
  moreover have "has_data (link_after ?f ?s)"
    using start_peer_views(1)
    by (simp add: link_after_def CommitAckLocked_def has_data_def tunnel_push_def view_defs
        RadioInterface_init_def empty_frame_def)
  ultimately show ?thesis
    using peer_response_table [of ?s ?f 0 False] by (auto simp: Let_def empty_frame_def split_beta)
qed



lemma prepare_response_ops: "dev_ops (snd (prepare_response rx s)) = dev_ops s"
proof -
  have "dev_ops (snd (snd (ChoosePeerResponse u))) = dev_ops u" for u
    by (simp add: peer_choose_eq Let_def frame_simps)
  then show ?thesis
    using apply_request_views(3) [of rx s]
    by (simp add: prepare_response_def split_beta split: option.split)
qed

definition one_reply :: "peer \<Rightarrow> peer \<Rightarrow> bool" where
  "one_reply s s' \<longleftrightarrow> (\<exists>ops. dev_ops s' = dev_ops s @ ops \<and> (\<forall>m. disciplined m ops) \<and>
     list_all short_sleep ops \<and> length (written ops) \<le> 1)"

lemma Send_one_reply: "Send env p u = Some (res, s') \<Longrightarrow> dev_ops u = dev_ops s \<Longrightarrow> one_reply s s'"
  by (drule Send_ops(1)) (simp add: one_reply_def kTxFailureRecoveryGapUs_def)

lemma one_reply_cong: "one_reply s u \<Longrightarrow> dev_ops s' = dev_ops u \<Longrightarrow> one_reply s s'"
  by (simp add: one_reply_def)

lemma answer_request_ops:
  assumes "answer_request env t rx s = Some s'"
  shows "one_reply s s'"
proof (cases "ftype rx = Reset")
  case True
  with assms obtain ok where hr: "HandleReset env (RecordRx rx s) = Some (ok, s')"
    by (auto simp: answer_request_def Let_def)
  then obtain res u where snd: "Send env reset_packet (begin_peer_reset (RecordRx rx s)) = Some (res, u)"
    by (auto simp: HandleReset_def Let_def peer_reset_encode split: option.splits)
  have "dev_ops s' = dev_ops u"
    using hr snd by (auto simp: HandleReset_def Let_def peer_reset_encode split: if_splits)
  moreover have "one_reply s u"
    using Send_one_reply [OF snd, of s] by (simp add: begin_peer_reset_def clear_session_def)
  ultimately show ?thesis
    by (rule one_reply_cong [rotated])
next
  case False
  obtain res u where prep: "prepare_response rx (RecordRx rx s) = (res, u)"
    by fastforce
  then have u: "dev_ops u = dev_ops s"
    using prepare_response_ops [of rx "RecordRx rx s"] by simp
  show ?thesis
  proof (cases res)
    case None
    with assms False prep u show ?thesis
      by (simp add: answer_request_def Let_def one_reply_def)
  next
    case (Some r)
    obtain tx p where r: "r = (tx, p)"
      by fastforce
    with Some assms False prep obtain result v where snd: "Send env p u = Some (result, v)"
      by (auto simp: answer_request_def Let_def split: option.splits)
    have "dev_ops s' = dev_ops v"
      using Some r assms False prep snd
      by (auto simp: answer_request_def Let_def split: if_splits)
    then show ?thesis
      using Send_one_reply [OF snd u] by (rule one_reply_cong [rotated])
  qed
qed

lemma Peer_step_ops:
  assumes "Peer_step env s = Some s'"
  shows "\<exists>ops. dev_ops s' = dev_ops s @ ops \<and> (\<forall>m. disciplined m ops) \<and> list_all short_sleep ops \<and>
    length (written ops) \<le> 1 \<and>
    (WaitForRxReady (pe_recv env) (irq_line s \<noteq> None) 0 \<noteq> Some Success \<longrightarrow> ops = [StartListening])"
proof -
  from assms obtain result bs u where
    rcv: "Receive (pe_recv env) (replicate 32 0) 0 s = Some (result, bs, u)"
    by (auto simp: Peer_step_def split: option.splits)
  have irq: "irq_line (dev StartListening s) = irq_line s"
    by (simp add: frame_simps)
  show ?thesis
  proof (cases "result = Success")
    case False
    with assms rcv irq show ?thesis
      by (auto simp: Peer_step_def Receive_def Let_def dev_def split: option.splits if_splits)
  next
    case True
    with rcv irq have u: "dev_ops u = dev_ops s @ [StartListening, ReadRadio]"
      and ok: "WaitForRxReady (pe_recv env) (irq_line s \<noteq> None) 0 = Some Success"
      by (auto simp: Receive_def Let_def dev_def split: option.splits if_splits)
    have "one_reply u s'"
      using assms rcv True answer_request_ops
      by (auto simp: Peer_step_def one_reply_def split: option.splits)
    then obtain ops where "dev_ops s' = dev_ops u @ ops" "\<forall>m. disciplined m ops" "list_all short_sleep ops" "length (written ops) \<le> 1"
      by (auto simp: one_reply_def)
    with u ok show ?thesis
      by (intro exI [of _ "[StartListening, ReadRadio] @ ops"]) simp
  qed
qed

text \<open>C27. In one pass of \<open>Run\<close> a peer writes at most one packet to the
  radio, and only listens if it received none; and it uses the radio half-duplex, whatever it
  receives.\<close>

theorem peer_speaks_when_spoken_to:
  assumes "Peer_step env s = Some s'"
  shows "\<exists>ops. dev_ops s' = dev_ops s @ ops \<and> (\<forall>m. disciplined m ops) \<and> length (written ops) \<le> 1 \<and>
    (WaitForRxReady (pe_recv env) (irq_line s \<noteq> None) 0 \<noteq> Some Success \<longrightarrow> ops = [StartListening])"
  using Peer_step_ops [OF assms] by blast

theorem peer_speaks_when_spoken_to_witness:
  "\<exists>s' ops. Peer_step \<lparr>pe_recv = good_recv [9], pe_send = good_send, pe_stat_now = 0\<rparr> start_peer = Some s' \<and>
     dev_ops s' = dev_ops start_peer @ ops \<and> length (written ops) \<le> 1"
proof -
  let ?env = "\<lparr>pe_recv = good_recv [9], pe_send = good_send, pe_stat_now = 0\<rparr>"
  have "read_into [9] (replicate 32 0) = 9 # replicate 31 0"
    by (simp add: read_into_def numeral_eq_Suc)
  moreover have "DecodeMacFrame (9 # replicate 31 0)
      = Some \<lparr>ftype = Unknown 9, seq = 0, ack = 0, pending = 0, arg = 0, payload = []\<rparr>"
    by (simp add: DecodeMacFrame_eq type_of_byte_def nth_Cons')
  ultimately have "\<exists>s'. Peer_step ?env start_peer = Some s'"
    by (simp add: Peer_step_def Receive_good answer_request_def Let_def prepare_response_def
        apply_request_eq)
  then show ?thesis
    using peer_speaks_when_spoken_to by blast
qed

end
