(* ===== verification/Util.thy ===== *)
theory Util
  imports Prelude
begin

text \<open>
  The utilities of \<open>src/nerfnet/util/\<close>: the \<open>CHECK\<close> of \<open>log.h\<close>, which ends the process when its
  condition fails and is therefore the left branch of a sum, and \<open>StringFormat\<close> of \<open>string.cc\<close>. The
  clock and the sleeps of \<open>time.cc\<close> are in theory \<open>Timing\<close>.
\<close>

section \<open>Checks\<close>

definition CHECK :: "bool \<Rightarrow> 'e \<Rightarrow> 'e + unit" where
  "CHECK cond message = (if \<not> cond then Inl message else Inr ())"

primrec and_then :: "'e + 'a \<Rightarrow> ('a \<Rightarrow> 'e + 'b) \<Rightarrow> 'e + 'b" where
  "and_then (Inl e) f = Inl e"
| "and_then (Inr x) f = f x"

lemma and_then_assoc: "and_then (and_then r f) g = and_then r (\<lambda>x. and_then (f x) g)"
  by (cases r) simp_all

lemma and_then_Inr: "and_then r f = Inr y \<longleftrightarrow> (\<exists>x. r = Inr x \<and> f x = Inr y)"
  by (cases r) simp_all

lemma CHECK_Inr [simp]: "CHECK c m = Inr u \<longleftrightarrow> c"
  by (simp add: CHECK_def)

section \<open>Formatted strings\<close>

text \<open>
  \<open>vsnprintf\<close> of the C library: \<open>fmt\<close> is what the format and its arguments give (\<open>None\<close> on an encoding
  error). It returns the length of the whole text, or -1 if there is none or it does not fit an
  \<open>int\<close>, and fills the buffer with as much of the text as leaves room for the final NUL.
\<close>

definition INT_MAX :: int where "INT_MAX = 2 ^ 31 - 1"

definition vsnprintf :: "string option \<Rightarrow> string \<Rightarrow> int \<times> string" where
  "vsnprintf fmt buf =
     (case fmt of
        None \<Rightarrow> (-1, buf)
      | Some t \<Rightarrow>
          if int (length t) > INT_MAX then (-1, buf)
          else (int (length t),
                if buf = [] then []
                else let written = take (length buf - 1) t @ [CHR 0x00]
                     in written @ drop (length written) buf))"

datatype format_error = No_output_size | Format_failed

definition StringFormat :: "string option \<Rightarrow> format_error + string" where
  "StringFormat fmt =
     (case vsnprintf fmt [] of (sz, _) \<Rightarrow>
      and_then (CHECK (sz \<ge> 0) No_output_size) (\<lambda>_.
      let output = replicate (nat (sz + 1)) (CHR 0x00) in
      case vsnprintf fmt output of (sz, output) \<Rightarrow>
      and_then (CHECK (sz \<ge> 0) Format_failed) (\<lambda>_. Inr output)))"

text \<open>The string \<open>StringFormat\<close> returns is the formatted text
  followed by the terminating NUL, which counts as one of its characters. It fails exactly when
  the library does.\<close>

lemma StringFormat_keeps_terminator:
  assumes "case fmt of None \<Rightarrow> True | Some t \<Rightarrow> int (length t) < INT_MAX"
  shows "StringFormat fmt =
    (case fmt of None \<Rightarrow> Inl No_output_size | Some t \<Rightarrow> Inr (t @ [CHR 0x00]))"
proof (cases fmt)
  case (Some t)
  with assms have "int (length t) \<le> INT_MAX" by simp
  with Some show ?thesis
    by (simp add: StringFormat_def vsnprintf_def CHECK_def Let_def nat_add_distrib)
qed (simp add: StringFormat_def vsnprintf_def CHECK_def)

end
