(* ===== verification/Node_Start.thy ===== *)
theory Node_Start
  imports Irq Coordinator Peer Util
begin

text \<open>
  \<open>nerfnet_main.cc\<close> and the constructor of \<open>RadioInterface\<close>: from the parsed command line to a node
  whose main loop starts. The command-line parser, the RF24 driver and the kernel are arguments:
  \<open>arguments\<close> holds what the parser returns, \<open>radio_hw\<close> what the radio answers, and
  \<open>kernel\<close> which system calls succeed. A failed \<open>CHECK\<close> (\<open>util/log.h\<close>) ends the process and is the
  left branch of a sum, as is the exception \<open>InitializeIrq\<close> may let out.
\<close>

section \<open>Checks\<close>

datatype fatal =
    Open_tunnel_failed | Set_interface_failed | Socket_failed | Assign_ip_failed | Set_ip_failed
  | Assign_mask_failed | Set_mask_failed
  | Invalid_data_rate string | Invalid_crc string | Bad_retry_delay | Bad_retry_count
  | Bad_channel | Radio_not_started | Radio_unavailable | No_mode
  | Uncaught irq_exn

section \<open>Radio configuration\<close>

text \<open>Of the enumerations of RF24, the constants the program names.\<close>

datatype rf24_pa_dbm = RF24_PA_MAX
datatype rf24_datarate = RF24_1MBPS | RF24_2MBPS | RF24_250KBPS
datatype rf24_crclength = RF24_CRC_8 | RF24_CRC_16

record RadioConfig =
  pa_level :: rf24_pa_dbm
  data_rate :: rf24_datarate
  crc_length :: rf24_crclength
  retry_delay :: u8
  retry_count :: u8

definition default_RadioConfig :: RadioConfig where
  "default_RadioConfig =
     \<lparr>pa_level = RF24_PA_MAX, data_rate = RF24_2MBPS, crc_length = RF24_CRC_8, retry_delay = 0,
      retry_count = 15\<rparr>"

definition ParseDataRate :: "string \<Rightarrow> rf24_datarate \<Rightarrow> bool \<times> rf24_datarate" where
  "ParseDataRate value rate =
     (if value = ''2mbps'' then (True, RF24_2MBPS)
      else if value = ''1mbps'' then (True, RF24_1MBPS)
      else if value = ''250kbps'' then (True, RF24_250KBPS)
      else (False, rate))"

definition ParseCrcLength :: "string \<Rightarrow> rf24_crclength \<Rightarrow> bool \<times> rf24_crclength" where
  "ParseCrcLength value crc =
     (if value = ''8'' then (True, RF24_CRC_8)
      else if value = ''16'' then (True, RF24_CRC_16)
      else (False, crc))"

section \<open>The command line\<close>

text \<open>\<open>arg_tunnel_ip\<close> is \<open>None\<close> if the option was not given.\<close>

record arguments =
  arg_interface_name :: string
  arg_ce_pin :: u16
  arg_irq_pin :: int
  arg_primary :: bool
  arg_secondary :: bool
  arg_tunnel_ip :: "string option"
  arg_tunnel_mask :: string
  arg_primary_addr :: u32
  arg_secondary_addr :: u32
  arg_channel :: u8
  arg_poll_interval_us :: u32
  arg_enable_tunnel_logs :: bool
  arg_rf_data_rate :: string
  arg_rf_crc :: string
  arg_rf_retry_delay :: u32
  arg_rf_retry_count :: u32

definition default_arguments :: "bool \<Rightarrow> arguments" where
  "default_arguments primary =
     \<lparr>arg_interface_name = ''nerf0'', arg_ce_pin = 22, arg_irq_pin = -1, arg_primary = primary,
      arg_secondary = (\<not> primary), arg_tunnel_ip = None, arg_tunnel_mask = ''255.255.255.0'',
      arg_primary_addr = 0x90019001, arg_secondary_addr = 0x90009000, arg_channel = 1,
      arg_poll_interval_us = 100, arg_enable_tunnel_logs = False, arg_rf_data_rate = ''2mbps'', arg_rf_crc = ''8'',
      arg_rf_retry_delay = 0, arg_rf_retry_count = 15\<rparr>"

definition main_radio_config :: "arguments \<Rightarrow> fatal + RadioConfig" where
  "main_radio_config args =
     (let cfg = default_RadioConfig in
      case ParseDataRate (arg_rf_data_rate args) (data_rate cfg) of (rate_ok, rate) \<Rightarrow>
      and_then (CHECK rate_ok (Invalid_data_rate (arg_rf_data_rate args))) (\<lambda>_.
      let cfg = cfg\<lparr>data_rate := rate\<rparr> in
      case ParseCrcLength (arg_rf_crc args) (crc_length cfg) of (crc_ok, crc) \<Rightarrow>
      and_then (CHECK crc_ok (Invalid_crc (arg_rf_crc args))) (\<lambda>_.
      let cfg = cfg\<lparr>crc_length := crc\<rparr> in
      and_then (CHECK (arg_rf_retry_delay args \<le> 15) Bad_retry_delay) (\<lambda>_.
      and_then (CHECK (arg_rf_retry_count args \<le> 15) Bad_retry_count) (\<lambda>_.
      Inr (cfg\<lparr>retry_delay := ucast (arg_rf_retry_delay args),
               retry_count := ucast (arg_rf_retry_count args)\<rparr>))))))"

definition main_tunnel_ip :: "arguments \<Rightarrow> string" where
  "main_tunnel_ip args =
     (case arg_tunnel_ip args of
        Some ip \<Rightarrow> ip
      | None \<Rightarrow> if arg_primary args then ''192.168.10.1''
                else if arg_secondary args then ''192.168.10.2'' else [])"

section \<open>The tunnel interface\<close>

text \<open>The system calls, with the interface name as \<open>strncpy\<close> leaves it in \<open>ifr_name\<close>.\<close>

datatype sys_call =
    Open_tun
  | Tun_set_iff string u16
  | Socket
  | Set_if_flags string u16
  | Set_if_addr string u32
  | Set_if_netmask string u32
  | Close

record kernel =
  succeeds :: "sys_call \<Rightarrow> bool"
  inet_pton :: "string \<Rightarrow> u32 option"

definition IFNAMSIZ :: nat where "IFNAMSIZ = 16"

definition ifr_name :: "string \<Rightarrow> string" where
  "ifr_name name = take IFNAMSIZ (name @ replicate IFNAMSIZ (CHR 0x00))"

text \<open>A step of the set-up: a call with the check that follows it. \<open>None\<close> is not checked.\<close>

fun run_calls :: "kernel \<Rightarrow> (sys_call \<times> fatal option) list \<Rightarrow> sys_call list \<Rightarrow> fatal + sys_call list" where
  "run_calls k [] done = Inr done"
| "run_calls k ((c, check) # cs) done =
     (case check of
        Some message \<Rightarrow> if \<not> succeeds k c then Inl message else run_calls k cs (done @ [c])
      | None \<Rightarrow> run_calls k cs (done @ [c]))"

definition OpenTunnel :: "kernel \<Rightarrow> string \<Rightarrow> sys_call list \<Rightarrow> fatal + sys_call list" where
  "OpenTunnel k device_name done =
     run_calls k [(Open_tun, Some Open_tunnel_failed),
       (Tun_set_iff (ifr_name device_name) (0x0001 OR 0x1000), Some Set_interface_failed)] done"

definition SetInterfaceFlags :: "kernel \<Rightarrow> string \<Rightarrow> u16 \<Rightarrow> sys_call list \<Rightarrow> fatal + sys_call list" where
  "SetInterfaceFlags k device_name flags done =
     run_calls k [(Socket, Some Socket_failed),
       (Set_if_flags (ifr_name device_name) flags, Some Set_interface_failed), (Close, None)] done"

definition SetIPAddress :: "kernel \<Rightarrow> string \<Rightarrow> string \<Rightarrow> string \<Rightarrow> sys_call list \<Rightarrow> fatal + sys_call list" where
  "SetIPAddress k device_name ip ip_mask done =
     and_then (run_calls k [(Socket, Some Socket_failed)] done) (\<lambda>done.
     and_then (CHECK (inet_pton k ip \<noteq> None) Assign_ip_failed) (\<lambda>_.
     and_then (run_calls k [(Set_if_addr (ifr_name device_name) (the (inet_pton k ip)), Some Set_ip_failed)]
       done) (\<lambda>done.
     and_then (CHECK (inet_pton k ip_mask \<noteq> None) Assign_mask_failed) (\<lambda>_.
     run_calls k [(Set_if_netmask (ifr_name device_name) (the (inet_pton k ip_mask)), Some Set_mask_failed),
       (Close, None)] done))))"

section \<open>The radio interface\<close>

text \<open>The calls that set the radio up, in the order of the constructor.\<close>

datatype setup_op =
    Begin | Set_channel u8 | Set_pa_level rf24_pa_dbm | Set_data_rate rf24_datarate
  | Set_address_width nat | Set_auto_ack bool | Set_retries u8 u8 | Set_crc_length rf24_crclength

record radio_hw =
  begin_ok :: bool
  chip_connected :: bool

definition RadioInterface ::
  "radio_hw \<Rightarrow> gpio_sys \<Rightarrow> u8 \<Rightarrow> RadioConfig \<Rightarrow> int \<Rightarrow> fatal + (setup_op list \<times> gpio_op list \<times> link)" where
  "RadioInterface hw sys channel cfg irq =
     (let s = RadioInterface_init irq in
      and_then (CHECK (channel < 128) Bad_channel) (\<lambda>_.
      and_then (CHECK (begin_ok hw) Radio_not_started) (\<lambda>_.
      let setup = [Begin, Set_channel channel, Set_pa_level (pa_level cfg),
                   Set_data_rate (data_rate cfg), Set_address_width 3, Set_auto_ack True,
                   Set_retries (retry_delay cfg) (retry_count cfg), Set_crc_length (crc_length cfg)] in
      and_then (CHECK (chip_connected hw) Radio_unavailable) (\<lambda>_.
      if irq_pin s \<ge> 0 then
        (case InitializeIrq sys s of
           Inl e \<Rightarrow> Inl (Uncaught e)
         | Inr (_, ops, s) \<Rightarrow> Inr (setup, ops, s))
      else Inr (setup, [], s)))))"

datatype node = Primary coordinator | Secondary peer

text \<open>\<open>main\<close> up to the call of \<open>Run\<close>: the system calls, the set-up of the radio, and the node.\<close>

definition main ::
  "kernel \<Rightarrow> radio_hw \<Rightarrow> gpio_sys \<Rightarrow> arguments \<Rightarrow> fatal + (sys_call list \<times> setup_op list \<times> node)" where
  "main k hw sys args =
     and_then (main_radio_config args) (\<lambda>cfg.
     and_then (OpenTunnel k (arg_interface_name args) []) (\<lambda>calls.
     and_then (SetInterfaceFlags k (arg_interface_name args) 1 calls) (\<lambda>calls.
     and_then (SetIPAddress k (arg_interface_name args) (main_tunnel_ip args) (arg_tunnel_mask args) calls)
       (\<lambda>calls.
     if arg_primary args then
       and_then (RadioInterface hw sys (arg_channel args) cfg (arg_irq_pin args)) (\<lambda>(setup, _, base).
       Inr (calls, setup,
            Primary (SetTunnelLogsEnabled (arg_enable_tunnel_logs args)
              (PrimaryRadioInterface (arg_primary_addr args) (arg_secondary_addr args)
                 (ucast (arg_poll_interval_us args)) base))))
     else if arg_secondary args then
       and_then (RadioInterface hw sys (arg_channel args) cfg (arg_irq_pin args)) (\<lambda>(setup, _, base).
       Inr (calls, setup,
            Secondary (SetTunnelLogsEnabled (arg_enable_tunnel_logs args)
              (SecondaryRadioInterface (arg_primary_addr args) (arg_secondary_addr args) base))))
     else Inl No_mode))))"

section \<open>Lemmas\<close>

lemma RadioInterface_Inr:
  assumes "RadioInterface hw sys channel cfg irq = Inr (setup, ops, s)"
  shows "channel < 128" and "begin_ok hw" and "chip_connected hw"
    and "setup = [Begin, Set_channel channel, Set_pa_level (pa_level cfg), Set_data_rate (data_rate cfg),
      Set_address_width 3, Set_auto_ack True, Set_retries (retry_delay cfg) (retry_count cfg),
      Set_crc_length (crc_length cfg)]"
    and "tx_view s = tx_view (RadioInterface_init irq)" and "rx_view s = rx_view (RadioInterface_init irq)"
    and "dev_ops s = []" and "running s"
proof -
  have "InitializeIrq sys u = Inr (b, ops', v) \<Longrightarrow>
      tx_view v = tx_view u \<and> rx_view v = rx_view u \<and> dev_ops v = dev_ops u \<and> running v = running u"
    for u v :: link and b ops'
    by (auto simp: InitializeIrq_def CleanupIrq_def Let_def view_defs
        split: if_splits sum.splits option.splits)
  moreover have "dev_ops (RadioInterface_init irq) = [] \<and> running (RadioInterface_init irq)"
    by (simp add: RadioInterface_init_def)
  ultimately show "channel < 128" "begin_ok hw" "chip_connected hw"
    "setup = [Begin, Set_channel channel, Set_pa_level (pa_level cfg), Set_data_rate (data_rate cfg),
      Set_address_width 3, Set_auto_ack True, Set_retries (retry_delay cfg) (retry_count cfg),
      Set_crc_length (crc_length cfg)]"
    "tx_view s = tx_view (RadioInterface_init irq)" "rx_view s = rx_view (RadioInterface_init irq)"
    "dev_ops s = []" "running s"
    using assms by (auto simp: RadioInterface_def Let_def and_then_Inr split: if_splits sum.splits)
qed

lemma Primary_start:
  "tx_view (PrimaryRadioInterface a b i base) = tx_view base"
  "rx_view (PrimaryRadioInterface a b i base) = rx_view base"
  "dev_ops (PrimaryRadioInterface a b i base)
     = dev_ops base @ [OpenWritingPipe (pipe_address a), OpenReadingPipe kPipeId (pipe_address b)]"
  "connection_reset_required (PrimaryRadioInterface a b i base)"
  "mode_ok (PrimaryRadioInterface a b i base)"
  "\<not> disconnected (PrimaryRadioInterface a b i base)"
  "cstate (PrimaryRadioInterface a b i base) = ResetSync"
  "running (PrimaryRadioInterface a b i base) = running base"
  by (simp_all add: PrimaryRadioInterface_def Let_def view_defs link.defs coordinator.defs dev_def
      mode_ok_def)

lemma Secondary_start:
  "tx_view (SecondaryRadioInterface a b base) = tx_view base"
  "rx_view (SecondaryRadioInterface a b base) = rx_view base"
  "dev_ops (SecondaryRadioInterface a b base)
     = dev_ops base @ [OpenWritingPipe (pipe_address b), OpenReadingPipe kPipeId (pipe_address a)]"
  "running (SecondaryRadioInterface a b base) = running base"
  by (simp_all add: SecondaryRadioInterface_def Let_def view_defs link.defs peer.defs dev_def)

lemma logs_switch_frame [simp]:
  "tx_view (SetTunnelLogsEnabled b s) = tx_view s" "rx_view (SetTunnelLogsEnabled b s) = rx_view s"
  "dev_ops (SetTunnelLogsEnabled b s) = dev_ops s" "running (SetTunnelLogsEnabled b s) = running s"
  by (simp_all add: SetTunnelLogsEnabled_def view_defs)

lemma logs_switch_control [simp]: "control (SetTunnelLogsEnabled b s) = control s"
  by (simp add: SetTunnelLogsEnabled_def control_def)

lemmas logs_switch_mode = control_mode [OF logs_switch_control]

lemma main_Inr:
  assumes "main k hw sys args = Inr (calls, setup, n)"
  obtains cfg ops base where "main_radio_config args = Inr cfg"
    and "RadioInterface hw sys (arg_channel args) cfg (arg_irq_pin args) = Inr (setup, ops, base)"
    and "n = (if arg_primary args
      then Primary (SetTunnelLogsEnabled (arg_enable_tunnel_logs args)
        (PrimaryRadioInterface (arg_primary_addr args) (arg_secondary_addr args)
        (ucast (arg_poll_interval_us args)) base))
      else Secondary (SetTunnelLogsEnabled (arg_enable_tunnel_logs args)
        (SecondaryRadioInterface (arg_primary_addr args) (arg_secondary_addr args) base)))"
    and "inet_pton k (main_tunnel_ip args) \<noteq> None" and "inet_pton k (arg_tunnel_mask args) \<noteq> None"
    and "calls = (let name = ifr_name (arg_interface_name args) in
      [Open_tun, Tun_set_iff name 0x1001, Socket, Set_if_flags name 1, Close, Socket,
       Set_if_addr name (the (inet_pton k (main_tunnel_ip args))),
       Set_if_netmask name (the (inet_pton k (arg_tunnel_mask args))), Close])"
proof -
  have "(0x0001 OR 0x1000 :: u16) = 0x1001"
    by simp
  with assms show thesis
    unfolding main_def OpenTunnel_def SetInterfaceFlags_def SetIPAddress_def
    by (auto simp: and_then_Inr Let_def split: if_splits intro: that)
qed

lemma main_pipes:
  assumes "main k hw sys args = Inr (calls, setup, n)"
  shows "n = Primary c \<Longrightarrow> dev_ops c = [OpenWritingPipe (pipe_address (arg_primary_addr args)),
      OpenReadingPipe kPipeId (pipe_address (arg_secondary_addr args))]"
    and "n = Secondary p \<Longrightarrow> dev_ops p = [OpenWritingPipe (pipe_address (arg_secondary_addr args)),
      OpenReadingPipe kPipeId (pipe_address (arg_primary_addr args))]"
proof -
  obtain cfg ops base where
    r: "RadioInterface hw sys (arg_channel args) cfg (arg_irq_pin args) = Inr (setup, ops, base)"
    and n: "n = (if arg_primary args
      then Primary (SetTunnelLogsEnabled (arg_enable_tunnel_logs args)
        (PrimaryRadioInterface (arg_primary_addr args) (arg_secondary_addr args)
        (ucast (arg_poll_interval_us args)) base))
      else Secondary (SetTunnelLogsEnabled (arg_enable_tunnel_logs args)
        (SecondaryRadioInterface (arg_primary_addr args) (arg_secondary_addr args) base)))"
    by (rule main_Inr [OF assms])
  note d = RadioInterface_Inr(7) [OF r]
  show "dev_ops c = [OpenWritingPipe (pipe_address (arg_primary_addr args)),
      OpenReadingPipe kPipeId (pipe_address (arg_secondary_addr args))]" if "n = Primary c"
  proof -
    from that n have "c = SetTunnelLogsEnabled (arg_enable_tunnel_logs args)
        (PrimaryRadioInterface (arg_primary_addr args) (arg_secondary_addr args)
          (ucast (arg_poll_interval_us args)) base)"
      by (simp split: if_splits)
    then show ?thesis
      by (simp only: logs_switch_frame Primary_start d append_Nil)
  qed
  show "dev_ops p = [OpenWritingPipe (pipe_address (arg_secondary_addr args)),
      OpenReadingPipe kPipeId (pipe_address (arg_primary_addr args))]" if "n = Secondary p"
  proof -
    from that n have "p = SetTunnelLogsEnabled (arg_enable_tunnel_logs args)
        (SecondaryRadioInterface (arg_primary_addr args) (arg_secondary_addr args) base)"
      by (simp split: if_splits)
    then show ?thesis
      by (simp only: logs_switch_frame Secondary_start d append_Nil)
  qed
qed

text \<open>What holds of the two nodes when their \<open>Run\<close> is called.\<close>

definition fresh :: "'a link_scheme \<Rightarrow> bool" where
  "fresh s \<longleftrightarrow> link_wf s \<and> read_buffer s = [] \<and> \<not> tx_in_flight s \<and> tun_out s = [] \<and> running s"

lemma fresh_logs_switch [simp]: "fresh (SetTunnelLogsEnabled b s) = fresh s"
  by (simp add: fresh_def SetTunnelLogsEnabled_def link_wf_def)

lemma fresh_base:
  assumes "RadioInterface hw sys channel cfg irq = Inr (setup, ops, base)"
    and "tx_view s = tx_view base" and "rx_view s = rx_view base" and "running s = running base"
  shows "fresh s"
proof -
  note b = RadioInterface_Inr(5,6,8) [OF assms(1)]
  have "link_wf s"
    using link_wf_view [of s "RadioInterface_init irq"] link_wf_init assms(2,3) b by simp
  then show ?thesis
    using assms(2-4) b by (simp add: fresh_def view_defs RadioInterface_init_def)
qed

lemma main_Primary:
  assumes "main k hw sys args = Inr (calls, setup, Primary c)"
  shows "arg_primary args \<and> fresh c \<and> mode_ok c \<and> connection_reset_required c \<and> \<not> disconnected c"
proof (rule main_Inr [OF assms])
  fix cfg ops base
  assume r: "RadioInterface hw sys (arg_channel args) cfg (arg_irq_pin args) = Inr (setup, ops, base)"
    and "Primary c = (if arg_primary args
      then Primary (SetTunnelLogsEnabled (arg_enable_tunnel_logs args)
        (PrimaryRadioInterface (arg_primary_addr args) (arg_secondary_addr args)
        (ucast (arg_poll_interval_us args)) base))
      else Secondary (SetTunnelLogsEnabled (arg_enable_tunnel_logs args)
        (SecondaryRadioInterface (arg_primary_addr args) (arg_secondary_addr args) base)))"
  then show ?thesis
    using fresh_base [OF r Primary_start(1,2,8)] Primary_start(4-6)
    by (simp add: logs_switch_mode split: if_splits)
qed

lemma main_Secondary:
  assumes "main k hw sys args = Inr (calls, setup, Secondary p)"
  shows "\<not> arg_primary args \<and> fresh p"
proof (rule main_Inr [OF assms])
  fix cfg ops base
  assume r: "RadioInterface hw sys (arg_channel args) cfg (arg_irq_pin args) = Inr (setup, ops, base)"
    and "Secondary p = (if arg_primary args
      then Primary (SetTunnelLogsEnabled (arg_enable_tunnel_logs args)
        (PrimaryRadioInterface (arg_primary_addr args) (arg_secondary_addr args)
        (ucast (arg_poll_interval_us args)) base))
      else Secondary (SetTunnelLogsEnabled (arg_enable_tunnel_logs args)
        (SecondaryRadioInterface (arg_primary_addr args) (arg_secondary_addr args) base)))"
  then show ?thesis
    using fresh_base [OF r Secondary_start(1,2,4)] by (simp split: if_splits)
qed

text \<open>A start that succeeds.\<close>

definition working_kernel :: kernel where
  "working_kernel = \<lparr>succeeds = (\<lambda>_. True), inet_pton = (\<lambda>_. Some 0)\<rparr>"

definition working_radio :: radio_hw where
  "working_radio = \<lparr>begin_ok = True, chip_connected = True\<rparr>"

lemma main_runs:
  "\<exists>calls setup c. main working_kernel working_radio sys (default_arguments True)
     = Inr (calls, setup, Primary c)"
  "\<exists>calls setup p. main working_kernel working_radio sys (default_arguments False)
     = Inr (calls, setup, Secondary p)"
  by (simp_all add: main_def main_radio_config_def default_arguments_def ParseDataRate_def
      ParseCrcLength_def CHECK_def OpenTunnel_def SetInterfaceFlags_def SetIPAddress_def
      working_kernel_def working_radio_def RadioInterface_def RadioInterface_init_def)

section \<open>Properties\<close>

text \<open>The radio configuration is accepted exactly for the three data rates, the two
  CRC lengths and retry parameters up to 15 that the help texts name, and then the two 8-bit fields
  hold the given 32-bit numbers: the casts lose nothing.\<close>

lemma config_accepted:
  "((\<exists>cfg. main_radio_config args = Inr cfg) \<longleftrightarrow>
      arg_rf_data_rate args \<in> {''250kbps'', ''1mbps'', ''2mbps''} \<and>
      arg_rf_crc args \<in> {''8'', ''16''} \<and>
      unat (arg_rf_retry_delay args) \<le> 15 \<and> unat (arg_rf_retry_count args) \<le> 15) \<and>
   (main_radio_config args = Inr cfg \<longrightarrow>
      unat (retry_delay cfg) = unat (arg_rf_retry_delay args) \<and>
      unat (retry_count cfg) = unat (arg_rf_retry_count args) \<and>
      data_rate cfg = snd (ParseDataRate (arg_rf_data_rate args) RF24_2MBPS) \<and>
      crc_length cfg = snd (ParseCrcLength (arg_rf_crc args) RF24_CRC_8))"
proof -
  have cast: "unat (ucast x :: u8) = unat x" if "x \<le> 15" for x :: u32
  proof -
    have "unat x \<le> 15" using that by (simp add: word_le_nat_alt)
    then show ?thesis by (simp add: unsigned_ucast_eq take_bit_nat_eq_self)
  qed
  have "x \<le> 15 \<longleftrightarrow> unat x \<le> 15" for x :: u32
    by (simp add: word_le_nat_alt)
  then show ?thesis
    using cast [of "arg_rf_retry_delay args"] cast [of "arg_rf_retry_count args"]
    by (auto simp: main_radio_config_def and_then_Inr ParseDataRate_def ParseCrcLength_def Let_def
        default_RadioConfig_def split: if_splits prod.splits)
qed

text \<open>The radio set-up that the options ask for.\<close>

definition asked_setup :: "arguments \<Rightarrow> setup_op list" where
  "asked_setup args =
     [Begin, Set_channel (arg_channel args), Set_pa_level RF24_PA_MAX,
      Set_data_rate
        (if arg_rf_data_rate args = ''250kbps'' then RF24_250KBPS
         else if arg_rf_data_rate args = ''1mbps'' then RF24_1MBPS else RF24_2MBPS),
      Set_address_width 3, Set_auto_ack True,
      Set_retries (ucast (arg_rf_retry_delay args)) (ucast (arg_rf_retry_count args)),
      Set_crc_length (if arg_rf_crc args = ''16'' then RF24_CRC_16 else RF24_CRC_8)]"

lemma setup_asked:
  assumes "main_radio_config args = Inr cfg"
    and "RadioInterface hw sys (arg_channel args) cfg pin = Inr (setup, ops, base)"
  shows "setup = asked_setup args"
  using assms(1) RadioInterface_Inr(4) [OF assms(2)]
  by (auto simp: main_radio_config_def and_then_Inr ParseDataRate_def ParseCrcLength_def Let_def
      default_RadioConfig_def asked_setup_def split: if_splits prod.splits)

text \<open>C34. If no check fails, \<open>main\<close> has made exactly these system calls and exactly
  these calls that set up the radio, in this order, with the values the options name: channel, output
  power, data rate, address width, acknowledgements, retries, CRC, and then the two pipes of its role.
  The channel is below 128. The node whose \<open>Run\<close> it calls is well formed, has nothing queued or in
  flight, and as a coordinator requires a session to be established; the role and the log switch are
  the ones asked for.\<close>

theorem main_starts_node:
  assumes "main k hw sys args = Inr (calls, setup, n)"
  shows "calls = (let name = ifr_name (arg_interface_name args) in
      [Open_tun, Tun_set_iff name 0x1001, Socket, Set_if_flags name 1, Close, Socket,
       Set_if_addr name (the (inet_pton k (main_tunnel_ip args))),
       Set_if_netmask name (the (inet_pton k (arg_tunnel_mask args))), Close]) \<and>
    setup =
     [Begin, Set_channel (arg_channel args), Set_pa_level RF24_PA_MAX,
      Set_data_rate
        (if arg_rf_data_rate args = ''250kbps'' then RF24_250KBPS
         else if arg_rf_data_rate args = ''1mbps'' then RF24_1MBPS else RF24_2MBPS),
      Set_address_width 3, Set_auto_ack True,
      Set_retries (ucast (arg_rf_retry_delay args)) (ucast (arg_rf_retry_count args)),
      Set_crc_length (if arg_rf_crc args = ''16'' then RF24_CRC_16 else RF24_CRC_8)] \<and>
    arg_channel args < 128 \<and>
    (case n of
       Primary c \<Rightarrow> arg_primary args \<and> link_wf c \<and> mode_ok c \<and> connection_reset_required c \<and>
         \<not> has_data c \<and> tun_out c = [] \<and>
         dev_ops c = [OpenWritingPipe (pipe_address (arg_primary_addr args)),
           OpenReadingPipe kPipeId (pipe_address (arg_secondary_addr args))]
     | Secondary p \<Rightarrow> \<not> arg_primary args \<and> link_wf p \<and> \<not> has_data p \<and> tun_out p = [] \<and>
         dev_ops p = [OpenWritingPipe (pipe_address (arg_secondary_addr args)),
           OpenReadingPipe kPipeId (pipe_address (arg_primary_addr args))]) \<and>
    (case n of Primary c \<Rightarrow> tunnel_logs_enabled c | Secondary p \<Rightarrow> tunnel_logs_enabled p)
      = arg_enable_tunnel_logs args"
proof -
  obtain cfg ops base where
    cfg: "main_radio_config args = Inr cfg" and
    r: "RadioInterface hw sys (arg_channel args) cfg (arg_irq_pin args) = Inr (setup, ops, base)"
    and n: "n = (if arg_primary args
      then Primary (SetTunnelLogsEnabled (arg_enable_tunnel_logs args)
        (PrimaryRadioInterface (arg_primary_addr args) (arg_secondary_addr args)
        (ucast (arg_poll_interval_us args)) base))
      else Secondary (SetTunnelLogsEnabled (arg_enable_tunnel_logs args)
        (SecondaryRadioInterface (arg_primary_addr args) (arg_secondary_addr args) base)))"
    and c: "calls = (let name = ifr_name (arg_interface_name args) in
      [Open_tun, Tun_set_iff name 0x1001, Socket, Set_if_flags name 1, Close, Socket,
       Set_if_addr name (the (inet_pton k (main_tunnel_ip args))),
       Set_if_netmask name (the (inet_pton k (arg_tunnel_mask args))), Close])"
    by (rule main_Inr [OF assms])
  have "(case n of Primary c \<Rightarrow> tunnel_logs_enabled c | Secondary p \<Rightarrow> tunnel_logs_enabled p)
      = arg_enable_tunnel_logs args"
    by (simp add: n SetTunnelLogsEnabled_def)
  moreover have "case n of
       Primary c \<Rightarrow> arg_primary args \<and> link_wf c \<and> mode_ok c \<and> connection_reset_required c \<and>
         \<not> has_data c \<and> tun_out c = [] \<and>
         dev_ops c = [OpenWritingPipe (pipe_address (arg_primary_addr args)),
           OpenReadingPipe kPipeId (pipe_address (arg_secondary_addr args))]
     | Secondary p \<Rightarrow> \<not> arg_primary args \<and> link_wf p \<and> \<not> has_data p \<and> tun_out p = [] \<and>
         dev_ops p = [OpenWritingPipe (pipe_address (arg_secondary_addr args)),
           OpenReadingPipe kPipeId (pipe_address (arg_primary_addr args))]"
  proof (cases n)
    case (Primary c)
    with assms have "arg_primary args \<and> fresh c \<and> mode_ok c \<and> connection_reset_required c"
      using main_Primary by blast
    moreover have "dev_ops c = [OpenWritingPipe (pipe_address (arg_primary_addr args)),
        OpenReadingPipe kPipeId (pipe_address (arg_secondary_addr args))]"
      using main_pipes(1) [OF assms Primary] .
    ultimately show ?thesis
      using Primary by (simp add: fresh_def has_data_def)
  next
    case (Secondary p)
    with assms have "\<not> arg_primary args \<and> fresh p"
      using main_Secondary by blast
    moreover have "dev_ops p = [OpenWritingPipe (pipe_address (arg_secondary_addr args)),
        OpenReadingPipe kPipeId (pipe_address (arg_primary_addr args))]"
      using main_pipes(2) [OF assms Secondary] .
    ultimately show ?thesis
      using Secondary by (simp add: fresh_def has_data_def)
  qed
  ultimately show ?thesis
    using c RadioInterface_Inr(1) [OF r] setup_asked [OF cfg r] by (simp add: asked_setup_def)
qed

theorem main_starts_node_witness:
  "\<exists>calls setup c. main working_kernel working_radio one_chip (default_arguments True)
     = Inr (calls, setup, Primary c) \<and> link_wf c \<and> connection_reset_required c \<and>
     setup = [Begin, Set_channel 1, Set_pa_level RF24_PA_MAX, Set_data_rate RF24_2MBPS,
       Set_address_width 3, Set_auto_ack True, Set_retries 0 15, Set_crc_length RF24_CRC_8]"
proof -
  obtain calls su c where
    m: "main working_kernel working_radio one_chip (default_arguments True) = Inr (calls, su, Primary c)"
    using main_runs(1) by blast
  have "link_wf c \<and> connection_reset_required c \<and>
      su = [Begin, Set_channel 1, Set_pa_level RF24_PA_MAX, Set_data_rate RF24_2MBPS,
        Set_address_width 3, Set_auto_ack True, Set_retries 0 15, Set_crc_length RF24_CRC_8]"
    using main_starts_node [OF m] by (simp add: default_arguments_def)
  with m show ?thesis
    by blast
qed

text \<open>
  The settings two radios have to share to hear each other, which the set-up calls determine: the last
  call of each kind counts. \<open>None\<close> is a setting that no call made. The retries and the output power
  are a node's own.
\<close>

record air_settings =
  on_channel :: "u8 option"
  at_rate :: "rf24_datarate option"
  with_crc :: "rf24_crclength option"
  with_auto_ack :: "bool option"
  address_width :: "nat option"

fun apply_setup :: "setup_op \<Rightarrow> air_settings \<Rightarrow> air_settings" where
  "apply_setup (Set_channel ch) x = x\<lparr>on_channel := Some ch\<rparr>"
| "apply_setup (Set_data_rate rate) x = x\<lparr>at_rate := Some rate\<rparr>"
| "apply_setup (Set_crc_length crc) x = x\<lparr>with_crc := Some crc\<rparr>"
| "apply_setup (Set_auto_ack on) x = x\<lparr>with_auto_ack := Some on\<rparr>"
| "apply_setup (Set_address_width w) x = x\<lparr>address_width := Some w\<rparr>"
| "apply_setup _ x = x"

definition settings_of :: "setup_op list \<Rightarrow> air_settings" where
  "settings_of setup =
     fold apply_setup setup
       \<lparr>on_channel = None, at_rate = None, with_crc = None, with_auto_ack = None, address_width = None\<rparr>"

text \<open>The addresses a node writes to and those it reads from, as many bytes of them as its radio uses.\<close>

definition used_bytes :: "setup_op list \<Rightarrow> bytes \<Rightarrow> bytes" where
  "used_bytes setup a = (case address_width (settings_of setup) of None \<Rightarrow> a | Some w \<Rightarrow> take w a)"

fun addresses_written :: "setup_op list \<Rightarrow> dev_op list \<Rightarrow> bytes list" where
  "addresses_written setup [] = []"
| "addresses_written setup (OpenWritingPipe a # ops) = used_bytes setup a # addresses_written setup ops"
| "addresses_written setup (op # ops) = addresses_written setup ops"

fun addresses_read :: "setup_op list \<Rightarrow> dev_op list \<Rightarrow> bytes list" where
  "addresses_read setup [] = []"
| "addresses_read setup (OpenReadingPipe i a # ops) = used_bytes setup a # addresses_read setup ops"
| "addresses_read setup (op # ops) = addresses_read setup ops"

lemma settings_asked:
  "settings_of (asked_setup args) =
     \<lparr>on_channel = Some (arg_channel args),
      at_rate = Some (if arg_rf_data_rate args = ''250kbps'' then RF24_250KBPS
         else if arg_rf_data_rate args = ''1mbps'' then RF24_1MBPS else RF24_2MBPS),
      with_crc = Some (if arg_rf_crc args = ''16'' then RF24_CRC_16 else RF24_CRC_8),
      with_auto_ack = Some True, address_width = Some 3\<rparr>"
  by (simp add: settings_of_def asked_setup_def)

lemma used_asked: "used_bytes (asked_setup args) a = take 3 a"
  by (simp add: used_bytes_def settings_asked)

lemma take_pipe_address:
  "take 3 (pipe_address x) = take 3 (pipe_address y) \<longleftrightarrow> take_bit 24 x = take_bit 24 y"
proof -
  have nth: "bit x i = bit y i" if "i < 24" "(ucast x :: u8) = ucast y"
    "(ucast (drop_bit 8 x) :: u8) = ucast (drop_bit 8 y)"
    "(ucast (drop_bit 16 x) :: u8) = ucast (drop_bit 16 y)" for i
  proof -
    have b: "bit x (n + j) = bit y (n + j)"
      if "(ucast (drop_bit n x) :: u8) = ucast (drop_bit n y)" "j < 8" for n j
      using arg_cong [OF that(1), of "\<lambda>w. bit w j"] that(2)
      by (simp add: bit_ucast_iff bit_drop_bit_eq)
    note i = that(1)
    consider "i < 8" | "8 \<le> i" "i < 16" | "16 \<le> i" "i < 24"
      using i by linarith
    then show ?thesis
      using b [of 0 i] b [of 8 "i - 8"] b [of 16 "i - 16"] that(2-4)
      by cases simp_all
  qed
  have low: "(ucast (drop_bit n x) :: u8) = ucast (drop_bit n y)"
    if "take_bit 24 x = take_bit 24 y" "n \<le> 16" for n
  proof (rule bit_word_eqI)
    fix j :: nat
    assume "j < LENGTH(8)"
    with that(2) arg_cong [OF that(1), of "\<lambda>w. bit w (n + j)"]
    show "bit (ucast (drop_bit n x) :: u8) j = bit (ucast (drop_bit n y) :: u8) j"
      by (simp add: bit_ucast_iff bit_drop_bit_eq bit_take_bit_iff)
  qed
  show ?thesis
  proof
    assume "take 3 (pipe_address x) = take 3 (pipe_address y)"
    then show "take_bit 24 x = take_bit 24 y"
      using nth by (auto simp: pipe_address_def bit_take_bit_iff intro!: bit_word_eqI)
  next
    assume "take_bit 24 x = take_bit 24 y"
    from low [OF this, of 0] low [OF this, of 8] low [OF this, of 16]
    show "take 3 (pipe_address x) = take 3 (pipe_address y)"
      by (simp add: pipe_address_def)
  qed
qed

text \<open>The set-up calls, the pipes and the accepted options of a node.\<close>

lemma main_air:
  assumes "main k hw sys args = Inr (calls, setup, n)"
  shows "setup = asked_setup args"
    and "arg_rf_data_rate args \<in> {''250kbps'', ''1mbps'', ''2mbps''}" and "arg_rf_crc args \<in> {''8'', ''16''}"
proof -
  obtain cfg ops base where
    r: "main_radio_config args = Inr cfg"
      "RadioInterface hw sys (arg_channel args) cfg (arg_irq_pin args) = Inr (setup, ops, base)"
    by (rule main_Inr [OF assms])
  from setup_asked [OF r] show "setup = asked_setup args" .
  from r(1) config_accepted [of args cfg]
  show "arg_rf_data_rate args \<in> {''250kbps'', ''1mbps'', ''2mbps''}" "arg_rf_crc args \<in> {''8'', ''16''}"
    by blast+
qed

text \<open>C35. A coordinator and a peer that \<open>main\<close> starts set their radios to the same
  channel, data rate, CRC, address width and acknowledgements exactly if their \<open>--channel\<close>,
  \<open>--rf_data_rate\<close> and \<open>--rf_crc\<close> agree, whatever their retry options are. With the three address bytes
  the radios then use, each end reads from the address the other end writes to exactly if their
  addresses agree in the low 24 bits: the top byte of \<open>--primary_addr\<close> and \<open>--secondary_addr\<close> has no
  effect.\<close>

theorem settings_match:
  assumes "main k hw sys a = Inr (calls, setup, Primary c)"
    and "main k' hw' sys' b = Inr (calls', setup', Secondary p)"
  shows "(settings_of setup = settings_of setup' \<longleftrightarrow>
       arg_channel a = arg_channel b \<and> arg_rf_data_rate a = arg_rf_data_rate b \<and>
       arg_rf_crc a = arg_rf_crc b) \<and>
    with_auto_ack (settings_of setup) = Some True \<and> with_auto_ack (settings_of setup') = Some True \<and>
    (addresses_written setup (dev_ops c) = addresses_read setup' (dev_ops p) \<longleftrightarrow>
       take_bit 24 (arg_primary_addr a) = take_bit 24 (arg_primary_addr b)) \<and>
    (addresses_written setup' (dev_ops p) = addresses_read setup (dev_ops c) \<longleftrightarrow>
       take_bit 24 (arg_secondary_addr a) = take_bit 24 (arg_secondary_addr b))"
proof -
  note a = main_air [OF assms(1)] and b = main_air [OF assms(2)]
  have "settings_of setup = settings_of setup' \<longleftrightarrow>
      arg_channel a = arg_channel b \<and> arg_rf_data_rate a = arg_rf_data_rate b \<and>
      arg_rf_crc a = arg_rf_crc b"
    using a(2,3) b(2,3) unfolding a(1) b(1) settings_asked by auto
  then show ?thesis
    using main_pipes(1) [OF assms(1) refl] main_pipes(2) [OF assms(2) refl]
    by (auto simp: a(1) b(1) settings_asked used_asked take_pipe_address)
qed

theorem settings_match_witness:
  "\<exists>calls setup c calls' setup' p.
     main working_kernel working_radio one_chip (default_arguments True) = Inr (calls, setup, Primary c) \<and>
     main working_kernel working_radio one_chip (default_arguments False)
       = Inr (calls', setup', Secondary p) \<and>
     settings_of setup = settings_of setup' \<and>
     addresses_written setup (dev_ops c) = addresses_read setup' (dev_ops p)"
proof -
  obtain calls su c calls' su' p where
    m: "main working_kernel working_radio one_chip (default_arguments True) = Inr (calls, su, Primary c)"
    and n: "main working_kernel working_radio one_chip (default_arguments False)
      = Inr (calls', su', Secondary p)"
    using main_runs by blast
  have "settings_of su = settings_of su'" "addresses_written su (dev_ops c) = addresses_read su' (dev_ops p)"
    using settings_match [OF m n] by (simp_all add: default_arguments_def)
  with m n show ?thesis
    by blast
qed

section \<open>An interrupt line that cannot be set up\<close>

text \<open>A node as it is when no interrupt line was asked for.\<close>

definition without_line :: "'a link_scheme \<Rightarrow> 'a link_scheme" where
  "without_line s = s\<lparr>irq_pin := -1, irq_chip := None, irq_line := None, resolved_irq_chip_name := [],
     resolved_irq_line_offset := 0, resolved_irq_global_gpio := -1\<rparr>"

fun polling_node :: "node \<Rightarrow> node" where
  "polling_node (Primary c) = Primary (without_line c)"
| "polling_node (Secondary p) = Secondary (without_line p)"

fun line_of_node :: "node \<Rightarrow> u32 option" where
  "line_of_node (Primary c) = irq_line c"
| "line_of_node (Secondary p) = irq_line p"

lemma InitializeIrq_without_line:
  assumes "InitializeIrq sys (RadioInterface_init pin) = Inr (ok, ops, s)"
  shows "without_line s = RadioInterface_init (-1)" and "irq_line s \<noteq> None \<longleftrightarrow> ok"
proof -
  have frame: "without_line t = without_line u \<and> (irq_line t \<noteq> None \<longleftrightarrow> b)"
    if "InitializeIrq sys u = Inr (b, ops', t)" "irq_line u = None" for t u :: link and b ops'
    using that
    by (auto simp: InitializeIrq_def CleanupIrq_def without_line_def Let_def
        split: if_splits sum.splits option.splits)
  have "without_line (RadioInterface_init pin) = RadioInterface_init (-1)"
    "irq_line (RadioInterface_init pin) = None"
    by (simp_all add: without_line_def RadioInterface_init_def)
  with frame [OF assms] show "without_line s = RadioInterface_init (-1)" and "irq_line s \<noteq> None \<longleftrightarrow> ok"
    by simp_all
qed

lemma started_without_line:
  "without_line (PrimaryRadioInterface a b i base) = PrimaryRadioInterface a b i (without_line base)"
  "without_line (SecondaryRadioInterface a b base) = SecondaryRadioInterface a b (without_line base)"
  "without_line (SetTunnelLogsEnabled l s) = SetTunnelLogsEnabled l (without_line s)"
  "irq_line (PrimaryRadioInterface a b i base) = irq_line base"
  "irq_line (SecondaryRadioInterface a b base) = irq_line base"
  "irq_line (SetTunnelLogsEnabled l s) = irq_line s"
  by (simp_all add: without_line_def PrimaryRadioInterface_def SecondaryRadioInterface_def
      SetTunnelLogsEnabled_def Let_def link.defs coordinator.defs peer.defs dev_def)

text \<open>The part of \<open>main\<close> before the radio, and the node it starts from the base-class object.\<close>

definition main_tunnel :: "kernel \<Rightarrow> arguments \<Rightarrow> fatal + (RadioConfig \<times> sys_call list)" where
  "main_tunnel k args =
     and_then (main_radio_config args) (\<lambda>cfg.
     and_then (OpenTunnel k (arg_interface_name args) []) (\<lambda>calls.
     and_then (SetInterfaceFlags k (arg_interface_name args) 1 calls) (\<lambda>calls.
     and_then (SetIPAddress k (arg_interface_name args) (main_tunnel_ip args) (arg_tunnel_mask args) calls)
       (\<lambda>calls. Inr (cfg, calls)))))"

definition started_node :: "arguments \<Rightarrow> link \<Rightarrow> node" where
  "started_node args base =
     (if arg_primary args then
        Primary (SetTunnelLogsEnabled (arg_enable_tunnel_logs args)
          (PrimaryRadioInterface (arg_primary_addr args) (arg_secondary_addr args)
             (ucast (arg_poll_interval_us args)) base))
      else
        Secondary (SetTunnelLogsEnabled (arg_enable_tunnel_logs args)
          (SecondaryRadioInterface (arg_primary_addr args) (arg_secondary_addr args) base)))"

lemma main_parts:
  "main k hw sys args =
     and_then (main_tunnel k args) (\<lambda>(cfg, calls).
       if arg_primary args \<or> arg_secondary args then
         and_then (RadioInterface hw sys (arg_channel args) cfg (arg_irq_pin args))
           (\<lambda>(setup, _, base). Inr (calls, setup, started_node args base))
       else Inl No_mode)"
  unfolding main_def main_tunnel_def started_node_def
  by (cases "arg_primary args"; cases "arg_secondary args") (simp_all add: and_then_assoc)

text \<open>Asking for a line changes nothing but the set-up of the line.\<close>

lemma RadioInterface_pin:
  assumes "RadioInterface hw sys channel cfg (-1) = Inr (setup, ops, base)" and "0 \<le> pin"
  shows "RadioInterface hw sys channel cfg pin =
      (case InitializeIrq sys (RadioInterface_init pin) of
         Inl e \<Rightarrow> Inl (Uncaught e)
       | Inr (_, ops, s) \<Rightarrow> Inr (setup, ops, s))"
    and "base = RadioInterface_init (-1)"
  using assms
  by (auto simp: RadioInterface_def Let_def and_then_Inr CHECK_def RadioInterface_init_def
      split: if_splits)

lemma polling_started: "polling_node (started_node args base) = started_node args (without_line base)"
  by (simp add: started_node_def started_without_line)

lemma line_started: "line_of_node (started_node args base) = irq_line base"
  by (simp add: started_node_def started_without_line)

text \<open>C36. What an interrupt pin adds to a start that succeeds without one. If
  \<open>InitializeIrq\<close> succeeds, the same node is started with a line; if it fails, whatever call failed,
  the same node is started without a line, so it polls. But if \<open>/sys/class/gpio\<close> cannot be opened,
  the exception leaves the constructor and \<open>main\<close>, and no node is started, although the search by
  offset, which needs only the chips, was still to come.\<close>

theorem failed_line_falls_back:
  assumes "main k hw sys (args\<lparr>arg_irq_pin := -1\<rparr>) = Inr (calls, setup, n)" and "0 \<le> arg_irq_pin args"
  shows "(sysfs_gpio sys = None \<longrightarrow> main k hw sys args = Inl (Uncaught Filesystem_error)) \<and>
    (case InitializeIrq sys (RadioInterface_init (arg_irq_pin args)) of
       Inl e \<Rightarrow> main k hw sys args = Inl (Uncaught e)
     | Inr (ok, _, _) \<Rightarrow> \<exists>n'. main k hw sys args = Inr (calls, setup, n') \<and> polling_node n' = n \<and>
         (line_of_node n' \<noteq> None \<longleftrightarrow> ok))"
proof -
  let ?args = "args\<lparr>arg_irq_pin := -1\<rparr>"
  have "main_tunnel k ?args = main_tunnel k args"
    by (simp add: main_tunnel_def main_radio_config_def main_tunnel_ip_def)
  moreover have "started_node ?args = started_node args"
    by (rule ext) (simp add: started_node_def)
  ultimately obtain cfg ops base where t: "main_tunnel k args = Inr (cfg, calls)"
    and role: "arg_primary args \<or> arg_secondary args"
    and r: "RadioInterface hw sys (arg_channel args) cfg (-1) = Inr (setup, ops, base)"
    and n: "n = started_node args base"
    using assms(1) unfolding main_parts by (auto simp: and_then_Inr split: if_splits)
  note p = RadioInterface_pin [OF r assms(2)]
  let ?irq = "InitializeIrq sys (RadioInterface_init (arg_irq_pin args)) :: irq_exn + (bool \<times> gpio_op list \<times> link)"
  have m: "main k hw sys args =
      (case ?irq of
         Inl e \<Rightarrow> Inl (Uncaught e)
       | Inr (_, _, s) \<Rightarrow> Inr (calls, setup, started_node args s))"
    unfolding main_parts using t role p(1) by (simp split: sum.split)
  have "?irq = Inl Filesystem_error" if "sysfs_gpio sys = None"
    using that assms(2)
    by (simp add: InitializeIrq_def ResolveIrqTarget_def ResolveIrqTargetFromGlobal_def
        RadioInterface_init_def)
  then have "sysfs_gpio sys = None \<longrightarrow> main k hw sys args = Inl (Uncaught Filesystem_error)"
    by (simp add: m)
  moreover have "polling_node (started_node args s) = n \<and> (line_of_node (started_node args s) \<noteq> None \<longleftrightarrow> ok)"
    if "?irq = Inr (ok, ops', s)" for ok ops' s
    using InitializeIrq_without_line [OF that] p(2) n by (simp add: polling_started line_started)
  ultimately show ?thesis
    using m by (auto split: sum.split)
qed

text \<open>On a system with one chip whose line cannot be requested the node polls; without the directory
  the same pin ends the process.\<close>

theorem failed_line_falls_back_witness:
  "(\<exists>calls setup n. main working_kernel working_radio one_chip ((default_arguments True)\<lparr>arg_irq_pin := 6\<rparr>)
      = Inr (calls, setup, n) \<and> line_of_node n = None) \<and>
   main working_kernel working_radio (one_chip\<lparr>sysfs_gpio := None\<rparr>)
     ((default_arguments True)\<lparr>arg_irq_pin := 6\<rparr>) = Inl (Uncaught Filesystem_error)"
proof -
  let ?args = "(default_arguments True)\<lparr>arg_irq_pin := 6\<rparr>"
  have a: "?args\<lparr>arg_irq_pin := -1\<rparr> = default_arguments True"
    by (simp add: default_arguments_def)
  obtain calls su c where
    m: "main working_kernel working_radio one_chip (?args\<lparr>arg_irq_pin := -1\<rparr>) = Inr (calls, su, Primary c)"
    unfolding a using main_runs(1) by blast
  obtain calls' su' c' where
    m': "main working_kernel working_radio (one_chip\<lparr>sysfs_gpio := None\<rparr>) (?args\<lparr>arg_irq_pin := -1\<rparr>)
      = Inr (calls', su', Primary c')"
    unfolding a using main_runs(1) by blast
  have "\<exists>ops s. InitializeIrq one_chip (RadioInterface_init 6 :: link) = Inr (False, ops, s)"
    using resolve_one_chip
    by (simp add: InitializeIrq_def RadioInterface_init_def chip_target_def Let_def CleanupIrq_def one_chip_def)
  with failed_line_falls_back [OF m] failed_line_falls_back [OF m'] show ?thesis
    by auto
qed

end
