(* ===== verification/Link_System.thy ===== *)
theory Link_System
  imports Node_Start
begin

text \<open>
  The whole system: a coordinator and a peer with their tunnel threads and the radio channel between
  them, as a transition system whose steps are the operations of the two classes. The channel keeps
  the order of packets but may lose and repeat them. The invariant \<open>sys_inv\<close> holds in every reachable
  state; from it follow the delivery properties of a session in both directions.
\<close>

section \<open>The two halves of a pass of the coordinator\<close>

text \<open>
  A pass of \<open>Run\<close> in a session stops at \<open>Receive\<close>, where the peer runs. \<open>coordinator_request\<close> is the
  pass up to there, \<open>coordinator_response\<close> the rest of it.
\<close>

definition finish_pass :: "run_env \<Rightarrow> ExchangeResult \<Rightarrow> coordinator \<Rightarrow> coordinator" where
  "finish_pass env result s = coordinator_stats (stat_now env) (after_exchange (fail_now env) result s)"

definition coordinator_request ::
  "run_env \<Rightarrow> coordinator \<Rightarrow> (MacFrame option \<times> coordinator) option" where
  "coordinator_request env s =
     (let s = choose_poll_interval s;
          s = dev (Sleep (current_poll_interval_us s)) s
      in case exchange_request (x_send (run_exchange env)) s of
           None \<Rightarrow> None
         | Some (Inl result, s) \<Rightarrow> Some (None, finish_pass env result s)
         | Some (Inr tx, s) \<Rightarrow> Some (Some tx, s))"

definition coordinator_response ::
  "run_env \<Rightarrow> MacFrame \<Rightarrow> coordinator \<Rightarrow> (ExchangeResult \<times> coordinator) option" where
  "coordinator_response env tx s =
     (case exchange_response (x_recv (run_exchange env)) tx s of
        None \<Rightarrow> None
      | Some (result, s) \<Rightarrow> Some (result, finish_pass env result s))"

lemma Run_step_halves:
  assumes "\<not> disconnected s" and "\<not> connection_reset_required s"
  shows "Run_step env s =
    (case coordinator_request env s of
       None \<Rightarrow> None
     | Some (None, s) \<Rightarrow> Some s
     | Some (Some tx, s) \<Rightarrow> map_option snd (coordinator_response env tx s))"
proof -
  have "connection_reset_required (dev c (choose_poll_interval s)) = connection_reset_required s"
    for c
    by (simp add: dev_def choose_poll_interval_def)
  with assms show ?thesis
    by (cases "exchange_request (x_send (run_exchange env))
          (dev (Sleep (current_poll_interval_us (choose_poll_interval s))) (choose_poll_interval s))")
      (auto simp: Run_step_def coordinator_request_def coordinator_response_def PerformExchange_def
        finish_pass_def Let_def split: option.splits sum.splits)
qed

section \<open>States and steps\<close>

text \<open>
  \<open>awaiting\<close> is the request whose response the coordinator waits for. \<open>co_hist\<close> and \<open>pe_hist\<close> record,
  for each direction, the packets offered to the sender since the session began (its queue then, and
  every packet its tunnel thread queued since) and what the receiver had written to its tunnel when
  it began. They are written only, so the steps do not depend on them.

  A reset that succeeds is the coordinator's pass and the peer's pass on its RESET. Before it, the
  packets of an earlier session have left the air, and only RESETs and replies of earlier attempts may
  be there; after it, any number of RESETs (\<open>xs\<close>) and of RESET replies (\<open>ys\<close>) may still be under way,
  late or repeated by the channel, and both ends will receive them during the session.
\<close>

record system =
  co :: coordinator
  pe :: peer
  co_pc :: tunnel_pc
  pe_pc :: tunnel_pc
  to_peer :: "bytes list"
  to_coord :: "bytes list"
  awaiting :: "MacFrame option"
  co_hist :: "bytes list \<times> bytes list"
  pe_hist :: "bytes list \<times> bytes list"

text \<open>The packets a step of a tunnel thread queued.\<close>

definition queued_between :: "'a link_scheme \<Rightarrow> 'a link_scheme \<Rightarrow> bytes list" where
  "queued_between s s' = drop (length (read_buffer s)) (read_buffer s')"

text \<open>The system when \<open>main\<close> has started both nodes: nothing is on the air.\<close>

definition system_start :: "coordinator \<Rightarrow> peer \<Rightarrow> system" where
  "system_start c p =
     \<lparr>co = c, pe = p,
      co_pc = Tunnel_loop, pe_pc = Tunnel_loop, to_peer = [], to_coord = [], awaiting = None,
      co_hist = ([], []), pe_hist = ([], [])\<rparr>"

inductive sys_step :: "system \<Rightarrow> system \<Rightarrow> bool" where
  co_tunnel:
  "TunnelThread_step input (co_pc \<sigma>, co \<sigma>) = (pc, s) \<Longrightarrow>
     sys_step \<sigma> (\<sigma>\<lparr>co := s, co_pc := pc,
       co_hist := (fst (co_hist \<sigma>) @ queued_between (co \<sigma>) s, snd (co_hist \<sigma>))\<rparr>)"
| pe_tunnel:
  "TunnelThread_step input (pe_pc \<sigma>, pe \<sigma>) = (pc, s) \<Longrightarrow>
     sys_step \<sigma> (\<sigma>\<lparr>pe := s, pe_pc := pc,
       pe_hist := (fst (pe_hist \<sigma>) @ queued_between (pe \<sigma>) s, snd (pe_hist \<sigma>))\<rparr>)"
| co_request:
  "\<not> connection_reset_required (co \<sigma>) \<Longrightarrow> awaiting \<sigma> = None \<Longrightarrow>
   coordinator_request env (co \<sigma>) = Some (tx, s) \<Longrightarrow>
     sys_step \<sigma> (\<sigma>\<lparr>co := s, awaiting := tx, to_peer := to_peer \<sigma> @ sent_between (co \<sigma>) s\<rparr>)"
| co_response:
  "awaiting \<sigma> = Some tx \<Longrightarrow> to_coord \<sigma> = p # ps \<Longrightarrow>
   rx_fifo (x_recv (run_exchange env)) = p \<Longrightarrow>
   coordinator_response env tx (co \<sigma>) = Some (result, s) \<Longrightarrow> result \<noteq> TimeoutFailure \<Longrightarrow>
     sys_step \<sigma> (\<sigma>\<lparr>co := s, awaiting := None, to_coord := ps\<rparr>)"
| co_timeout:
  "awaiting \<sigma> = Some tx \<Longrightarrow> coordinator_response env tx (co \<sigma>) = Some (TimeoutFailure, s) \<Longrightarrow>
     sys_step \<sigma> (\<sigma>\<lparr>co := s, awaiting := None\<rparr>)"
| pe_receive:
  "to_peer \<sigma> = p # ps \<Longrightarrow> rx_fifo (pe_recv env) = p \<Longrightarrow>
   WaitForRxReady (pe_recv env) (irq_line (pe \<sigma>) \<noteq> None) 0 = Some Success \<Longrightarrow>
   Peer_step env (pe \<sigma>) = Some s \<Longrightarrow>
     sys_step \<sigma> (\<sigma>\<lparr>pe := s, to_peer := ps, to_coord := to_coord \<sigma> @ sent_between (pe \<sigma>) s\<rparr>)"
| pe_idle:
  "WaitForRxReady (pe_recv env) (irq_line (pe \<sigma>) \<noteq> None) 0 \<noteq> Some Success \<Longrightarrow>
   Peer_step env (pe \<sigma>) = Some s \<Longrightarrow>
     sys_step \<sigma> (\<sigma>\<lparr>pe := s\<rparr>)"
| lose_request: "to_peer \<sigma> = xs @ p # ys \<Longrightarrow> sys_step \<sigma> (\<sigma>\<lparr>to_peer := xs @ ys\<rparr>)"
| lose_response: "to_coord \<sigma> = xs @ p # ys \<Longrightarrow> sys_step \<sigma> (\<sigma>\<lparr>to_coord := xs @ ys\<rparr>)"
| repeat_request: "to_peer \<sigma> = xs @ p # ys \<Longrightarrow> sys_step \<sigma> (\<sigma>\<lparr>to_peer := xs @ p # p # ys\<rparr>)"
| repeat_response: "to_coord \<sigma> = xs @ p # ys \<Longrightarrow> sys_step \<sigma> (\<sigma>\<lparr>to_coord := xs @ p # p # ys\<rparr>)"
| reset_fails:
  "connection_reset_required (co \<sigma>) \<Longrightarrow> Run_step env (co \<sigma>) = Some s \<Longrightarrow>
   connection_reset_required s \<Longrightarrow>
     sys_step \<sigma> (\<sigma>\<lparr>co := s, to_peer := to_peer \<sigma> @ sent_between (co \<sigma>) s\<rparr>)"
| reset_succeeds:
  "connection_reset_required (co \<sigma>) \<Longrightarrow> only_resets (to_peer \<sigma> @ to_coord \<sigma>) \<Longrightarrow>
   Run_step env (co \<sigma>) = Some s \<Longrightarrow> \<not> connection_reset_required s \<Longrightarrow>
   sent_between (co \<sigma>) s = [rx_fifo (pe_recv penv)] \<Longrightarrow>
   WaitForRxReady (pe_recv penv) (irq_line (pe \<sigma>) \<noteq> None) 0 = Some Success \<Longrightarrow>
   Peer_step penv (pe \<sigma>) = Some r \<Longrightarrow>
   sent_between (pe \<sigma>) r = [rx_fifo (x_recv (run_exchange env))] \<Longrightarrow> only_resets (xs @ ys) \<Longrightarrow>
     sys_step \<sigma> (\<sigma>\<lparr>co := s, pe := r, to_peer := xs, to_coord := ys,
       co_hist := (read_buffer s, tun_out r), pe_hist := (read_buffer r, tun_out s)\<rparr>)"

inductive reachable :: "system \<Rightarrow> bool" where
  start: "main k hw gpio args = Inr (calls, setup, Primary c) \<Longrightarrow>
     main k' hw' gpio' args' = Inr (calls', setup', Secondary p) \<Longrightarrow> reachable (system_start c p)"
| step: "reachable \<sigma> \<Longrightarrow> sys_step \<sigma> \<sigma>' \<Longrightarrow> reachable \<sigma>'"

text \<open>The system with default options, on machines where every call succeeds.\<close>

lemma reachable_start:
  obtains c p where "reachable (system_start c p)" and "fresh c" and "connection_reset_required c"
    and "fresh p"
proof -
  fix gpio :: gpio_sys
  obtain calls su c calls' su' p where
    c: "main working_kernel working_radio gpio (default_arguments True) = Inr (calls, su, Primary c)"
    and p: "main working_kernel working_radio gpio (default_arguments False)
      = Inr (calls', su', Secondary p)"
    using main_runs by blast
  from reachable.start [OF c p] main_Primary [OF c] main_Secondary [OF p] show thesis
    by (auto intro: that)
qed

section \<open>The invariant\<close>

definition session :: "system \<Rightarrow> bool" where
  "session \<sigma> \<longleftrightarrow>
     lk.chan_inv (co_hist \<sigma>) (co \<sigma>) (pe \<sigma>) (data_of (to_peer \<sigma>)) (acks_of (to_coord \<sigma>)) \<and>
     lk.chan_inv (pe_hist \<sigma>) (pe \<sigma>) (co \<sigma>) (data_of (to_coord \<sigma>)) (acks_of (to_peer \<sigma>)) \<and>
     requests_after_resets (to_peer \<sigma>) \<and> (reset_packet \<in> set (to_peer \<sigma>) \<longrightarrow> cleared (pe \<sigma>)) \<and>
     (\<forall>p \<in> set (to_coord \<sigma>).
        p = reset_packet \<or> (\<exists>f. DecodeMacFrame p = Some f \<and> peer_frame_ok f)) \<and>
     (cstate (co \<sigma>) = Idle \<longrightarrow> \<not> peer_has_pending (co \<sigma>))"

definition sys_inv :: "system \<Rightarrow> bool" where
  "sys_inv \<sigma> \<longleftrightarrow>
     link_wf (co \<sigma>) \<and> link_wf (pe \<sigma>) \<and> mode_ok (co \<sigma>) \<and>
     (awaiting \<sigma> \<noteq> None \<longrightarrow> \<not> connection_reset_required (co \<sigma>)) \<and>
     (\<not> connection_reset_required (co \<sigma>) \<longrightarrow> session \<sigma>)"

section \<open>What the passes change\<close>

lemma finish_pass_frame [simp]:
  "tx_view (finish_pass env res s) = tx_view s" "rx_view (finish_pass env res s) = rx_view s"
  "dev_ops (finish_pass env res s) = dev_ops s"
  by (simp_all add: finish_pass_def)

lemma stats_control:
  "mode_ok (coordinator_stats t s) = mode_ok s"
  "connection_reset_required (coordinator_stats t s) = connection_reset_required s"
  "cstate (coordinator_stats t s) = cstate s"
  "peer_has_pending (coordinator_stats t s) = peer_has_pending s"
  using stats_frame(4) [of t s] mode_ok_control [of "coordinator_stats t s" s]
  by (simp_all add: control_def)

lemma mode_ok_finish: "mode_ok s \<Longrightarrow> mode_ok (finish_pass env res s)"
  by (simp add: finish_pass_def stats_control mode_ok_after_exchange)

lemma finish_pass_control:
  "peer_has_pending (finish_pass env res s) = peer_has_pending s"
  "connection_reset_required (finish_pass env res s) \<or> cstate (finish_pass env res s) = cstate s"
  "connection_reset_required s \<Longrightarrow> connection_reset_required (finish_pass env res s)"
  by (cases res; simp add: finish_pass_def stats_control after_exchange_def
        HandleTransactionFailure_def Let_def split: FailureType.split)+

lemma coordinator_request_cases:
  assumes wf: "link_wf s" and ok: "mode_ok s" "\<not> connection_reset_required s"
    and req: "coordinator_request env s = Some (tx, s')"
  obtains f p where "sent_between s s' = [p]" and "DecodeMacFrame p = Some f" and "request_ok f"
    and "sends f s s'" and "mode_ok s'" and "peer_has_pending s' = peer_has_pending s"
    and "connection_reset_required s' \<or> cstate s' = cstate s"
    and "tx \<noteq> None \<longrightarrow> tx = Some f \<and> control s' = control s"
    and "(cstate s = Idle \<longrightarrow> \<not> peer_has_pending s) \<longrightarrow>
           ftype f = request_type (cstate s) (has_data s) \<and> (ftype f = Grant \<longrightarrow> arg f = 3)"
proof -
  define u where "u = dev (Sleep (current_poll_interval_us (choose_poll_interval s)))
    (choose_poll_interval s)"
  have v: "tx_view u = tx_view s" "rx_view u = rx_view s" "written (dev_ops u) = written (dev_ops s)"
      "control u = control s"
    by (simp_all add: u_def)
  have cu: "link_wf u" "cstate u \<noteq> ResetSync"
    using wf ok v link_wf_view [OF v(1,2)] by (auto simp: mode_ok_def control_def)
  from req obtain res t where ex: "exchange_request (x_send (run_exchange env)) u = Some (res, t)"
    and out: "(\<exists>r. res = Inl r \<and> tx = None \<and> s' = finish_pass env r t) \<or>
      (\<exists>f. res = Inr f \<and> tx = Some f \<and> s' = t)"
    by (auto simp: coordinator_request_def Let_def u_def split: option.splits sum.splits)
  obtain f p where f: "written (dev_ops t) = written (dev_ops u) @ [p]" "DecodeMacFrame p = Some f"
      "request_ok f" "sends f u t" "control t = control u" "res = Inr f \<or> res = Inl SendFailure"
      "(cstate u = Idle \<longrightarrow> \<not> peer_has_pending u) \<longrightarrow>
         ftype f = request_type (cstate u) (has_data u) \<and> (ftype f = Grant \<longrightarrow> arg f = 3)"
    by (rule exchange_request_connected [OF cu ex])
  note c = control_mode [OF f(5)] control_mode [OF v(4)]
  have fin: "mode_ok (finish_pass env r t)"
      "peer_has_pending (finish_pass env r t) = peer_has_pending s"
      "connection_reset_required (finish_pass env r t) \<or> cstate (finish_pass env r t) = cstate s"
      for r
    using c ok mode_ok_finish [of t] finish_pass_control(1,2) [of env r t] by simp_all
  have "tx_view s' = tx_view t" "rx_view s' = rx_view t" "dev_ops s' = dev_ops t"
      "mode_ok s'" "peer_has_pending s' = peer_has_pending s"
      "connection_reset_required s' \<or> cstate s' = cstate s"
      "tx \<noteq> None \<longrightarrow> tx = Some f \<and> s' = t"
    using out c ok f(6) by (elim disjE exE conjE; simp add: fin)+
  moreover have "sends f s t"
    using f(4) v(1,2) by (rule sends_cong)
  moreover have "has_data u = has_data s"
    using v(1) by (simp add: has_data_def tx_view_def)
  ultimately show thesis
    using f(1-3,5,7) v(3,4) c by (intro that [of p f]) (simp_all add: sends_def sent_between_eq)
qed

lemma coordinator_response_cases:
  assumes "coordinator_response env tx s = Some (res, s')" and ok: "mode_ok s"
  obtains (timeout) "res = TimeoutFailure" "tx_view s' = tx_view s" "rx_view s' = rx_view s"
      "mode_ok s'" "peer_has_pending s' = peer_has_pending s"
      "connection_reset_required s' \<or> cstate s' = cstate s"
  | (reply) f where "res \<noteq> TimeoutFailure"
      "DecodeMacFrame (read_into (rx_fifo (x_recv (run_exchange env))) (replicate 32 0)) = Some f"
      "tx_view s' = tx_view (link_after f s)" "rx_view s' = rx_view (link_after f s)"
      "peer_frame_ok f \<Longrightarrow> (ftype f = Data \<Longrightarrow> fst (ConsumeDataFrameLocked f s)) \<Longrightarrow>
        \<not> connection_reset_required s \<Longrightarrow>
        res = Ex_Success \<and> mode_ok s' \<and> (cstate s' = Idle \<longleftrightarrow> \<not> peer_has_pending s') \<and>
        (cstate s' = Idle \<longleftrightarrow> ftype f = Ack)"
      "ftype f = Reset \<Longrightarrow> pending f = 0 \<Longrightarrow>
        res = ProtocolFailure \<and> mode_ok s' \<and> \<not> peer_has_pending s'"
proof -
  from assms(1) obtain t where
    ex: "exchange_response (x_recv (run_exchange env)) tx s = Some (res, t)" and
    s': "s' = finish_pass env res t"
    by (auto simp: coordinator_response_def split: option.splits)
  from ex show thesis
  proof (cases rule: exchange_response_cases)
    case timeout
    note c = control_mode [OF timeout(4)]
    show thesis
      using timeout(1-3) s' ok c mode_ok_finish [of t] finish_pass_control(1,2) [of env res t]
      by (intro that(1)) simp_all
  next
    case (reply f s0)
    note 2 = reply
    note t = conclude_views [of tx f s0, unfolded 2(7), simplified]
    note c = control_mode [OF 2(5)]
    have v: "tx_view s' = tx_view (link_after f s)" "rx_view s' = rx_view (link_after f s)"
      using t link_after_cong [OF 2(3,4)] s' by simp_all
    show thesis
    proof (rule that(2) [OF 2(1,2) v])
      assume f: "peer_frame_ok f" and data: "ftype f = Data \<Longrightarrow> fst (ConsumeDataFrameLocked f s)"
        and up: "\<not> connection_reset_required s"
      have "ftype f = Data \<Longrightarrow> fst (ConsumeDataFrameLocked f s0)"
        using data consume_cong(1) [OF 2(4), of f] by simp
      from conclude_ok [OF f this, of tx, unfolded 2(7)] have
        k: "res = Ex_Success" "cstate t \<noteq> ResetSync" "cstate t = Idle \<longleftrightarrow> \<not> peer_has_pending t"
          "cstate t = Idle \<longleftrightarrow> ftype f = Ack"
        by simp_all
      have "mode_ok t"
        using k(2) t(4,5) c up ok by (auto simp: mode_ok_def)
      then have "mode_ok s'"
        using s' mode_ok_finish by simp
      moreover have "cstate s' = cstate t" "peer_has_pending s' = peer_has_pending t"
        using k(1) s' by (simp_all add: finish_pass_def stats_control after_exchange_def)
      ultimately show "res = Ex_Success \<and> mode_ok s' \<and>
          (cstate s' = Idle \<longleftrightarrow> \<not> peer_has_pending s') \<and> (cstate s' = Idle \<longleftrightarrow> ftype f = Ack)"
        using k(1,3,4) by simp
    next
      assume "ftype f = Reset" "pending f = 0"
      from conclude_reset [OF this, of tx s0, unfolded 2(7)] have
        k: "res = ProtocolFailure" "cstate t = cstate s0" "\<not> peer_has_pending t"
        by simp_all
      have "mode_ok t"
        using k(2) t(4,5) c ok by (auto simp: mode_ok_def)
      with k s' show "res = ProtocolFailure \<and> mode_ok s' \<and> \<not> peer_has_pending s'"
        using mode_ok_finish finish_pass_control(1) [of env res t] by simp
    qed
  qed
qed

lemma TunnelThread_cases:
  assumes "TunnelThread_step input (pc0, s) = (pc, s')"
  obtains (quiet) "tx_view s' = tx_view s" "rx_view s' = rx_view s" "link.more s' = link.more s"
      "queued_between s s' = []"
  | (push) p where "s' = tunnel_push p s" "IsValidIpPacket p" "queued_between s s' = [p]"
proof (cases pc0)
  case Tunnel_loop
  with assms have "s' = s"
    by (auto split: if_splits)
  then show thesis
    by (intro quiet) (simp_all add: queued_between_def)
next
  case Tunnel_read
  show thesis
  proof (cases "\<exists>bs. input = Some bs \<and> IsValidIpPacket (take kTunnelReadSize bs)")
    case True
    then obtain bs where "input = Some bs" "IsValidIpPacket (take kTunnelReadSize bs)"
      by blast
    with True assms Tunnel_read show thesis
      by (intro push [of "take kTunnelReadSize bs"])
        (auto simp: tunnel_push_def queued_between_def Let_def)
  next
    case False
    with assms Tunnel_read have "s' = s"
      by (auto simp: Let_def split: if_splits option.splits)
    then show thesis
      by (intro quiet) (simp_all add: queued_between_def)
  qed
next
  case Tunnel_throttle
  with assms have "s' = s \<or> s' = dev (Sleep 1000) s"
    by (auto split: if_splits)
  then show thesis
    by (intro quiet) (auto simp: queued_between_def frame_simps)
next
  case Tunnel_done
  with assms show thesis
    by (intro quiet) (simp_all add: queued_between_def)
qed

lemma push_more [simp]: "link.more (tunnel_push p s) = link.more s"
  by (simp add: tunnel_push_def)

lemma reset_pass_cases:
  assumes "Run_step env s = Some s'" and "connection_reset_required s" and "mode_ok s"
  obtains (waits) "tx_view s' = tx_view s" "rx_view s' = rx_view s" "sent_between s s' = []"
      "mode_ok s'" "connection_reset_required s'"
  | (attempts) "tx_view s' = tx_view (clear_session s)" "rx_view s' = rx_view (clear_session s)"
      "sent_between s s' = [reset_packet]" "mode_ok s'"
      "\<not> connection_reset_required s' \<Longrightarrow> cstate s' = Idle \<and> \<not> peer_has_pending s'"
proof (cases "disconnected s \<and> loop_now env < next_retry_time_us s")
  case True
  with assms have "s' = dev (Sleep 1000) s"
    by (simp add: Run_step_def)
  with assms(2,3) control_mode [of s' s] show thesis
    by (intro waits) (simp_all add: sent_between_eq)
next
  case False
  define u where "u = (if disconnected s then s
    else dev (Sleep (current_poll_interval_us (choose_poll_interval s))) (choose_poll_interval s))"
  have u: "tx_view u = tx_view s" "rx_view u = rx_view s" "control u = control s"
      "written (dev_ops u) = written (dev_ops s)"
    by (simp_all add: u_def)
  note cu = control_mode [OF u(3)]
  have "connection_reset_required u" "disconnected u = disconnected s"
    using cu assms(2) by simp_all
  with False assms(1,2) obtain ok t where
    cr: "ConnectionReset (run_exchange env) u = Some (ok, t)" and
    s': "s' = (if ok then session_up t else if disconnected s then retry_failed (fail_now env) t
        else HandleTransactionFailure (fail_now env) Fail_Protocol
               (t\<lparr>reset_fail_log_counter := reset_fail_log_counter t + 1\<rparr>))"
    by (auto simp: Run_step_def u_def Let_def split: option.splits if_splits)
  note t = ConnectionReset_cases(1-4) [OF cr]
  let ?w = "t\<lparr>reset_fail_log_counter := reset_fail_log_counter t + 1\<rparr>"
  have cl: "tx_view (clear_session u) = tx_view (clear_session s)"
      "rx_view (clear_session u) = rx_view (clear_session s)"
    using u(1,2) by (simp_all add: clear_session_def view_defs)
  have "mode_ok t"
    using t(3) cu assms(3) by (auto simp: mode_ok_def control_def)
  then have w: "mode_ok ?w" "connection_reset_required ?w" "tx_view ?w = tx_view t"
      "rx_view ?w = rx_view t" "dev_ops ?w = dev_ops t"
    using t(3) \<open>connection_reset_required u\<close> by (auto simp: mode_ok_def control_def view_defs)
  have hf: "connection_reset_required (HandleTransactionFailure (fail_now env) Fail_Protocol ?w)"
    using w(2) by (simp add: HandleTransactionFailure_def Let_def)
  have rf: "mode_ok (retry_failed (fail_now env) t)"
      "connection_reset_required (retry_failed (fail_now env) t)"
    using control_mode [OF retry_failed_frame(4) [of "fail_now env" t]] \<open>mode_ok t\<close> w(2) by simp_all
  have su: "mode_ok (session_up t)" "cstate (session_up t) = Idle"
      "\<not> peer_has_pending (session_up t)"
    using t(3) by (simp_all add: session_up_def mode_ok_def control_def)
  show thesis
  proof (rule attempts)
    show "tx_view s' = tx_view (clear_session s)" "rx_view s' = rx_view (clear_session s)"
      "sent_between s s' = [reset_packet]"
      using t cl u(4) w(3-5) s' by (simp_all add: sent_between_eq)
    show "mode_ok s'"
      using s' rf su mode_ok_failure [OF w(1)] by simp
    show "\<not> connection_reset_required s' \<Longrightarrow> cstate s' = Idle \<and> \<not> peer_has_pending s'"
      using s' rf hf su by (simp split: if_splits)
  qed
qed

section \<open>The invariant is preserved\<close>

lemma chan_cong_both:
  fixes s s' :: "'a link_scheme" and r r' :: "'b link_scheme"
  assumes "lk.chan_inv g s r ds as" and "lk.chan_inv h r s es bs"
    and "tx_view s' = tx_view s" "rx_view s' = rx_view s"
    and "tx_view r' = tx_view r" "rx_view r' = rx_view r"
  shows "lk.chan_inv g s' r' ds as" and "lk.chan_inv h r' s' es bs"
  using assms lk.chan_wf [OF assms(1)] lk.chan_wf [OF assms(2)] link_wf_view [of s' s]
    link_wf_view [of r' r]
  by (auto elim!: chan_cong)

lemma link_wf_clear_view:
  "link_wf s \<Longrightarrow> tx_view s' = tx_view (clear_session s) \<Longrightarrow>
     rx_view s' = rx_view (clear_session s) \<Longrightarrow> link_wf s'"
  using link_wf_view [of s' "clear_session s"] link_wf_clear by blast

lemma inv_start:
  assumes "main k hw gpio args = Inr (calls, setup, Primary c)"
    and "main k' hw' gpio' args' = Inr (calls', setup', Secondary p)"
  shows "sys_inv (system_start c p)"
  using main_Primary [OF assms(1)] main_Secondary [OF assms(2)]
  by (simp add: sys_inv_def system_start_def fresh_def)

text \<open>RESETs among the packets of a session.\<close>

lemma reset_frame_fields:
  "ftype reset_frame = Reset" "ack reset_frame = 0" "pending reset_frame = 0"
  by (simp_all add: reset_frame_def empty_frame_def)

lemma request_not_reset: "DecodeMacFrame p = Some f \<Longrightarrow> request_ok f \<Longrightarrow> p \<noteq> reset_packet"
  using decode_reset_packet by (auto simp: request_ok_def reset_frame_fields)

lemma peer_frame_not_reset: "DecodeMacFrame p = Some f \<Longrightarrow> peer_frame_ok f \<Longrightarrow> p \<noteq> reset_packet"
  using decode_reset_packet by (auto simp: peer_frame_ok_def reset_frame_fields)

lemma requests_head:
  assumes "requests_after_resets (p # ps)"
  shows "requests_after_resets ps"
    and "p = reset_packet \<or> (\<exists>f. DecodeMacFrame p = Some f \<and> request_ok f) \<and> reset_packet \<notin> set ps"
proof -
  show "requests_after_resets ps"
    using requests_lose(1) [of "[]" p ps] assms by simp
  show "p = reset_packet \<or> (\<exists>f. DecodeMacFrame p = Some f \<and> request_ok f) \<and> reset_packet \<notin> set ps"
    using assms request_not_reset by (fastforce simp: requests_after_resets_def)
qed

lemma resets_data: "only_resets ps \<Longrightarrow> data_of ps = []"
  by (induction ps) (simp_all add: only_resets_def packet_data_def decode_reset_packet reset_frame_fields)

lemma chan_resets:
  assumes "lk.chan_inv g s r [] []" and "last_rx_seq r = None" and "only_resets xs" and "only_resets ys"
  shows "lk.chan_inv g s r (data_of xs) (acks_of ys)"
proof -
  have "lk.chan_inv g s r [] (acks_of ys)"
    using assms(4)
  proof (induction ys rule: rev_induct)
    case (snoc p ys)
    then have "p = reset_packet" "lk.chan_inv g s r [] (acks_of ys)"
      by (simp_all add: only_resets_def)
    with chan_put_ack [OF this(2), of p reset_frame] assms(2) show ?case
      by (simp add: decode_reset_packet reset_frame_fields ack_value_def kNoSeq_def)
  qed (use assms(1) in simp)
  then show ?thesis
    by (simp add: resets_data [OF assms(3)])
qed

text \<open>A queued packet becomes part of what was offered.\<close>

lemma inv_co_push:
  assumes inv: "sys_inv \<sigma>" and p: "IsValidIpPacket p"
  shows "sys_inv (\<sigma>\<lparr>co := tunnel_push p (co \<sigma>), co_pc := pc,
    co_hist := (fst (co_hist \<sigma>) @ [p], snd (co_hist \<sigma>))\<rparr>)"
proof -
  let ?s = "tunnel_push p (co \<sigma>)"
  note c = control_mode [OF control_more [OF push_more [of p "co \<sigma>"]]]
  have ne: "p \<noteq> []" using p by (rule valid_packet_nonempty)
  have "lk.chan_inv (fst (co_hist \<sigma>) @ [p], snd (co_hist \<sigma>)) ?s (pe \<sigma>) ds bs"
    if "lk.chan_inv (co_hist \<sigma>) (co \<sigma>) (pe \<sigma>) ds bs" for ds bs
    using chan_push [OF that ne] by simp
  moreover have "lk.chan_inv (pe_hist \<sigma>) (pe \<sigma>) ?s ds bs"
    if "lk.chan_inv (pe_hist \<sigma>) (pe \<sigma>) (co \<sigma>) ds bs" for ds bs
    using chan_cong [OF that lk.chan_wf [OF that] refl, of ?s] by simp
  ultimately show ?thesis
    using inv c link_wf_push [OF _ ne, of "co \<sigma>"] by (auto simp: sys_inv_def session_def)
qed

lemma inv_pe_push:
  assumes inv: "sys_inv \<sigma>" and p: "IsValidIpPacket p"
  shows "sys_inv (\<sigma>\<lparr>pe := tunnel_push p (pe \<sigma>), pe_pc := pc,
    pe_hist := (fst (pe_hist \<sigma>) @ [p], snd (pe_hist \<sigma>))\<rparr>)"
proof -
  let ?s = "tunnel_push p (pe \<sigma>)"
  have ne: "p \<noteq> []" using p by (rule valid_packet_nonempty)
  have "lk.chan_inv (fst (pe_hist \<sigma>) @ [p], snd (pe_hist \<sigma>)) ?s (co \<sigma>) ds bs"
    if "lk.chan_inv (pe_hist \<sigma>) (pe \<sigma>) (co \<sigma>) ds bs" for ds bs
    using chan_push [OF that ne] by simp
  moreover have "lk.chan_inv (co_hist \<sigma>) (co \<sigma>) ?s ds bs"
    if "lk.chan_inv (co_hist \<sigma>) (co \<sigma>) (pe \<sigma>) ds bs" for ds bs
    using chan_cong [OF that lk.chan_wf [OF that] refl, of ?s] by simp
  ultimately show ?thesis
    using inv link_wf_push [OF _ ne, of "pe \<sigma>"] by (auto simp: sys_inv_def session_def)
qed

lemma inv_co_tunnel:
  assumes inv: "sys_inv \<sigma>" and st: "TunnelThread_step input (co_pc \<sigma>, co \<sigma>) = (pc, s)"
  shows "sys_inv (\<sigma>\<lparr>co := s, co_pc := pc,
    co_hist := (fst (co_hist \<sigma>) @ queued_between (co \<sigma>) s, snd (co_hist \<sigma>))\<rparr>)"
  using st
proof (cases rule: TunnelThread_cases)
  case quiet
  note c = control_mode [OF control_more [OF quiet(3)]]
  from quiet inv c show ?thesis
    using link_wf_view [OF quiet(1,2)]
      chan_cong_both [of "co_hist \<sigma>" "co \<sigma>" "pe \<sigma>" _ _ "pe_hist \<sigma>" _ _ s "pe \<sigma>"]
    by (auto simp: sys_inv_def session_def)
next
  case (push p)
  then show ?thesis
    using inv_co_push [OF inv push(2), of pc] by simp
qed

lemma inv_pe_tunnel:
  assumes inv: "sys_inv \<sigma>" and st: "TunnelThread_step input (pe_pc \<sigma>, pe \<sigma>) = (pc, s)"
  shows "sys_inv (\<sigma>\<lparr>pe := s, pe_pc := pc,
    pe_hist := (fst (pe_hist \<sigma>) @ queued_between (pe \<sigma>) s, snd (pe_hist \<sigma>))\<rparr>)"
  using st
proof (cases rule: TunnelThread_cases)
  case quiet
  from quiet inv show ?thesis
    using link_wf_view [OF quiet(1,2)] cleared_view [OF quiet(1,2)]
      chan_cong_both [of "co_hist \<sigma>" "co \<sigma>" "pe \<sigma>" _ _ "pe_hist \<sigma>" _ _ "co \<sigma>" s]
    by (auto simp: sys_inv_def session_def)
next
  case (push p)
  then show ?thesis
    using inv_pe_push [OF inv push(2), of pc] by simp
qed

lemma inv_co_request:
  assumes inv: "sys_inv \<sigma>" and up: "\<not> connection_reset_required (co \<sigma>)"
    and req: "coordinator_request env (co \<sigma>) = Some (tx, s)"
  shows "sys_inv (\<sigma>\<lparr>co := s, awaiting := tx, to_peer := to_peer \<sigma> @ sent_between (co \<sigma>) s\<rparr>)"
proof -
  from inv up have ses: "session \<sigma>" and wf: "link_wf (co \<sigma>)" "mode_ok (co \<sigma>)"
    by (auto simp: sys_inv_def)
  obtain f p where
    f: "sent_between (co \<sigma>) s = [p]" "DecodeMacFrame p = Some f" "request_ok f" "sends f (co \<sigma>) s"
      "mode_ok s" "peer_has_pending s = peer_has_pending (co \<sigma>)"
      "connection_reset_required s \<or> cstate s = cstate (co \<sigma>)"
      "tx \<noteq> None \<longrightarrow> tx = Some f \<and> control s = control (co \<sigma>)"
      "(cstate (co \<sigma>) = Idle \<longrightarrow> \<not> peer_has_pending (co \<sigma>)) \<longrightarrow>
         ftype f = request_type (cstate (co \<sigma>)) (has_data (co \<sigma>)) \<and> (ftype f = Grant \<longrightarrow> arg f = 3)"
    by (rule coordinator_request_cases [OF wf up req])
  have "tx \<noteq> None \<Longrightarrow> \<not> connection_reset_required s"
    using f(8) up control_mode [of s "co \<sigma>"] by blast
  with f(1-7) have f: "sent_between (co \<sigma>) s = [p]" "DecodeMacFrame p = Some f" "request_ok f"
      "sends f (co \<sigma>) s" "mode_ok s" "peer_has_pending s = peer_has_pending (co \<sigma>)"
      "connection_reset_required s \<or> cstate s = cstate (co \<sigma>)"
      "tx \<noteq> None \<Longrightarrow> \<not> connection_reset_required s"
    by simp_all
  from ses have out: "lk.chan_inv (co_hist \<sigma>) (co \<sigma>) (pe \<sigma>) (data_of (to_peer \<sigma>)) (acks_of (to_coord \<sigma>))"
    and incoming: "lk.chan_inv (pe_hist \<sigma>) (pe \<sigma>) (co \<sigma>) (data_of (to_coord \<sigma>)) (acks_of (to_peer \<sigma>))"
    by (auto simp: session_def)
  from chan_sends [OF out incoming f(2,4)] ses f inv sends_wf [OF f(4) wf(1)]
    requests_append [OF _ f(2,3)] request_not_reset [OF f(2,3)] show ?thesis
    by (auto simp: sys_inv_def session_def)
qed

text \<open>In a session, the coordinator takes a response ...\<close>

lemma co_response_session:
  assumes inv: "sys_inv \<sigma>" and aw: "awaiting \<sigma> = Some tx" and ch: "to_coord \<sigma> = p # ps"
    and env: "rx_fifo (x_recv (run_exchange env)) = p"
    and res: "coordinator_response env tx (co \<sigma>) = Some (result, s)" "result \<noteq> TimeoutFailure"
  obtains f where "DecodeMacFrame p = Some f" and "tx_view s = tx_view (link_after f (co \<sigma>))"
    and "rx_view s = rx_view (link_after f (co \<sigma>))" and "mode_ok s"
    and "if p = reset_packet then result = ProtocolFailure \<and> f = reset_frame \<and> \<not> peer_has_pending s
      else result = Ex_Success \<and> (cstate s = Idle \<longleftrightarrow> \<not> peer_has_pending s) \<and>
        (cstate s = Idle \<longleftrightarrow> ftype f = Ack)"
proof -
  from inv aw have ses: "session \<sigma>" and wf: "link_wf (co \<sigma>)" "mode_ok (co \<sigma>)"
    and up: "\<not> connection_reset_required (co \<sigma>)"
    by (auto simp: sys_inv_def)
  from ses ch obtain f where f: "DecodeMacFrame p = Some f"
    and kind: "p = reset_packet \<and> f = reset_frame \<or> p \<noteq> reset_packet \<and> peer_frame_ok f"
    using decode_reset_packet by (cases "p = reset_packet") (auto simp: session_def)
  from f have p: "read_into p (replicate 32 0) = p"
    by (intro read_into_full) (simp add: DecodeMacFrame_eq split: if_splits)
  from coordinator_response_cases [OF res(1) wf(2)] res(2) obtain f' where
    "DecodeMacFrame (read_into p (replicate 32 0)) = Some f'"
    "tx_view s = tx_view (link_after f' (co \<sigma>))" "rx_view s = rx_view (link_after f' (co \<sigma>))"
    "peer_frame_ok f' \<Longrightarrow> (ftype f' = Data \<Longrightarrow> fst (ConsumeDataFrameLocked f' (co \<sigma>))) \<Longrightarrow>
        \<not> connection_reset_required (co \<sigma>) \<Longrightarrow>
        result = Ex_Success \<and> mode_ok s \<and> (cstate s = Idle \<longleftrightarrow> \<not> peer_has_pending s) \<and>
        (cstate s = Idle \<longleftrightarrow> ftype f' = Ack)"
    "ftype f' = Reset \<Longrightarrow> pending f' = 0 \<Longrightarrow>
        result = ProtocolFailure \<and> mode_ok s \<and> \<not> peer_has_pending s"
    using env by metis
  moreover from this f p have "f' = f" by simp
  ultimately have v: "tx_view s = tx_view (link_after f (co \<sigma>))"
      "rx_view s = rx_view (link_after f (co \<sigma>))"
    and m: "peer_frame_ok f \<Longrightarrow> (ftype f = Data \<Longrightarrow> fst (ConsumeDataFrameLocked f (co \<sigma>))) \<Longrightarrow>
        result = Ex_Success \<and> mode_ok s \<and> (cstate s = Idle \<longleftrightarrow> \<not> peer_has_pending s) \<and>
        (cstate s = Idle \<longleftrightarrow> ftype f = Ack)"
    and r: "ftype f = Reset \<Longrightarrow> pending f = 0 \<Longrightarrow>
        result = ProtocolFailure \<and> mode_ok s \<and> \<not> peer_has_pending s"
    using up by auto
  have "lk.chan_inv (pe_hist \<sigma>) (pe \<sigma>) (co \<sigma>) (data_of (p # ps)) (acks_of (to_peer \<sigma>))"
    using ses ch by (simp add: session_def)
  note d = chan_take_data(1) [OF this f]
  from kind show thesis
  proof (elim disjE conjE)
    assume "p = reset_packet" "f = reset_frame"
    with r v f show thesis
      by (intro that [of f]) (simp_all add: reset_frame_fields)
  next
    assume "p \<noteq> reset_packet" "peer_frame_ok f"
    with m [OF _ d] v f show thesis
      by (intro that [of f]) (simp_all only: if_False, blast+)
  qed
qed

text \<open>A RESET reply changes nothing at the link.\<close>

lemma link_after_reset:
  assumes "link_wf s"
  shows "link_after reset_frame s = s"
proof (cases "tx_in_flight s")
  case True
  with assms have "seq_ok (tx_inflight_seq s)"
    by (simp add: link_wf_def)
  then have "tx_inflight_seq s \<noteq> 0"
    by (auto simp: seq_ok_def)
  then show ?thesis
    by (simp add: link_after_def reset_frame_fields CommitAckLocked_def)
next
  case False
  then show ?thesis
    by (simp add: link_after_def reset_frame_fields CommitAckLocked_def)
qed

text \<open>What a peer does with a RESET.\<close>

lemma peer_reset_pass:
  assumes st: "Peer_step env s = Some r" and env: "rx_fifo (pe_recv env) = reset_packet"
    and ready: "WaitForRxReady (pe_recv env) (irq_line s \<noteq> None) 0 = Some Success"
  shows "tx_view r = tx_view (clear_session s)" and "rx_view r = rx_view (clear_session s)"
    and "sent_between s r = [reset_packet]"
proof -
  have "DecodeMacFrame (read_into reset_packet (replicate 32 0)) = Some reset_frame"
    using decode_reset_packet read_into_full [of reset_packet "replicate 32 0"]
    by (simp add: reset_packet_def)
  with Peer_step_cases [OF st] ready env obtain s0 where
    v: "tx_view s0 = tx_view s" "rx_view s0 = rx_view s" and
    w: "written (dev_ops s0) = written (dev_ops s)" and
    ans: "answer_request (pe_send env) (pe_stat_now env) reset_frame s0 = Some r"
    by (metis option.inject)
  have "ftype reset_frame = Reset"
    by (simp add: reset_frame_def)
  with ans obtain ok where hr: "HandleReset (pe_send env) (RecordRx reset_frame s0) = Some (ok, r)"
    by (auto simp: answer_request_def Let_def)
  have "tx_view (RecordRx reset_frame s0) = tx_view s" "rx_view (RecordRx reset_frame s0) = rx_view s"
    using v by simp_all
  then have "tx_view (clear_session (RecordRx reset_frame s0)) = tx_view (clear_session s)"
      "rx_view (clear_session (RecordRx reset_frame s0)) = rx_view (clear_session s)"
    by (simp_all add: clear_session_def view_defs)
  with HandleReset_views [OF hr] w show
    "tx_view r = tx_view (clear_session s)" "rx_view r = rx_view (clear_session s)"
    "sent_between s r = [reset_packet]"
    by (simp_all add: sent_between_eq)
qed

text \<open>... and the peer takes a request and sends its response, or answers a RESET that is left over.\<close>

lemma pe_receive_request:
  assumes inv: "sys_inv \<sigma>" and ses: "session \<sigma>" and ch: "to_peer \<sigma> = p # ps"
    and f: "DecodeMacFrame p = Some f" "request_ok f"
    and env: "rx_fifo (pe_recv env) = p"
    and ready: "WaitForRxReady (pe_recv env) (irq_line (pe \<sigma>) \<noteq> None) 0 = Some Success"
    and st: "Peer_step env (pe \<sigma>) = Some s"
  obtains u q tx where "tx_view u = tx_view (link_after f (pe \<sigma>))"
    and "rx_view u = rx_view (link_after f (pe \<sigma>))" and "sent_between (pe \<sigma>) s = [q]"
    and "DecodeMacFrame q = Some tx" and "peer_frame_ok tx" and "sends tx u s"
    and "ftype tx = response_type f (has_data u)"
proof -
  from f have p: "read_into p (replicate 32 0) = p"
    by (intro read_into_full) (simp add: DecodeMacFrame_eq split: if_splits)
  from Peer_step_cases [OF st] ready env f(1) p obtain s0 where
    v: "tx_view s0 = tx_view (pe \<sigma>)" "rx_view s0 = rx_view (pe \<sigma>)" and
    w: "written (dev_ops s0) = written (dev_ops (pe \<sigma>))" and
    ans: "answer_request (pe_send env) (pe_stat_now env) f s0 = Some s"
    by (metis option.inject)
  have wf0: "link_wf s0"
    using link_wf_view [OF v] inv by (simp add: sys_inv_def)
  have rx: "rx_view (RecordRx f s0) = rx_view (pe \<sigma>)"
    using v(2) by simp
  have "lk.chan_inv (co_hist \<sigma>) (co \<sigma>) (pe \<sigma>) (data_of (p # ps)) (acks_of (to_coord \<sigma>))"
    using ses ch by (simp add: session_def)
  from chan_take_data(1) [OF this f(1)] consume_cong(1) [OF rx, of f] f(2)
  have "fst (ApplyCoordinatorRequest f (RecordRx f s0))"
    by (intro apply_request_ok) simp_all
  moreover have "ftype f \<noteq> Reset"
    using f(2) by (auto simp: request_ok_def)
  ultimately obtain tx q where
    q: "written (dev_ops s) = written (dev_ops s0) @ [q]" "DecodeMacFrame q = Some tx"
      "peer_frame_ok tx" "sends tx (link_after f s0) s"
      "ftype tx = response_type f (has_data (link_after f s0))"
    using answer_request_cases [OF wf0 _ ans] by blast
  from q(1) w have "sent_between (pe \<sigma>) s = [q]"
    by (simp add: sent_between_eq)
  with q link_after_cong [OF v, of f] show thesis
    by (intro that [of "link_after f s0" q tx]) simp_all
qed

lemma pe_receive_session:
  assumes inv: "sys_inv \<sigma>" and ses: "session \<sigma>" and ch: "to_peer \<sigma> = p # ps"
    and env: "rx_fifo (pe_recv env) = p"
    and ready: "WaitForRxReady (pe_recv env) (irq_line (pe \<sigma>) \<noteq> None) 0 = Some Success"
    and st: "Peer_step env (pe \<sigma>) = Some s"
  obtains f u q tx where "DecodeMacFrame p = Some f" and "tx_view u = tx_view (link_after f (pe \<sigma>))"
    and "rx_view u = rx_view (link_after f (pe \<sigma>))" and "sent_between (pe \<sigma>) s = [q]"
    and "DecodeMacFrame q = Some tx" and "sends tx u s"
    and "if p = reset_packet then q = reset_packet \<and> cleared s
      else reset_packet \<notin> set ps \<and> peer_frame_ok tx \<and> ftype tx = response_type f (has_data u)"
proof (cases "p = reset_packet")
  case False
  with requests_head(2) [of p ps] ses ch obtain f where
    f: "DecodeMacFrame p = Some f" "request_ok f" and rest: "reset_packet \<notin> set ps"
    by (auto simp: session_def)
  obtain u q tx where "tx_view u = tx_view (link_after f (pe \<sigma>))"
      "rx_view u = rx_view (link_after f (pe \<sigma>))" "sent_between (pe \<sigma>) s = [q]"
      "DecodeMacFrame q = Some tx" "peer_frame_ok tx" "sends tx u s"
      "ftype tx = response_type f (has_data u)"
    by (rule pe_receive_request [OF inv ses ch f env ready st])
  with f(1) rest False show thesis
    by (intro that [of f u q tx]) simp_all
next
  case True
  note r = peer_reset_pass [OF st env [unfolded True] ready]
  have c: "cleared (pe \<sigma>)"
    using ses ch True by (simp add: session_def)
  have v: "tx_view s = tx_view (pe \<sigma>)" "rx_view s = rx_view (pe \<sigma>)"
    using r(1,2) clear_cleared [OF c] by simp_all
  have "sends reset_frame (pe \<sigma>) s"
    using v c by (simp add: sends_def reset_frame_fields ack_value_def kNoSeq_def cleared_def)
  moreover have "link_after reset_frame (pe \<sigma>) = pe \<sigma>"
    using inv by (intro link_after_reset) (simp add: sys_inv_def)
  ultimately show thesis
    using True r(3) cleared_view [OF v] c decode_reset_packet
    by (intro that [of reset_frame "pe \<sigma>" reset_packet reset_frame]) simp_all
qed

lemma inv_co_response:
  assumes inv: "sys_inv \<sigma>" and aw: "awaiting \<sigma> = Some tx" and ch: "to_coord \<sigma> = p # ps"
    and env: "rx_fifo (x_recv (run_exchange env)) = p"
    and res: "coordinator_response env tx (co \<sigma>) = Some (result, s)" "result \<noteq> TimeoutFailure"
  shows "sys_inv (\<sigma>\<lparr>co := s, awaiting := None, to_coord := ps\<rparr>)"
proof -
  from inv aw have ses: "session \<sigma>"
    by (auto simp: sys_inv_def)
  obtain f where f: "DecodeMacFrame p = Some f" "tx_view s = tx_view (link_after f (co \<sigma>))"
      "rx_view s = rx_view (link_after f (co \<sigma>))" "mode_ok s"
    and k: "if p = reset_packet then result = ProtocolFailure \<and> f = reset_frame \<and> \<not> peer_has_pending s
      else result = Ex_Success \<and> (cstate s = Idle \<longleftrightarrow> \<not> peer_has_pending s) \<and>
        (cstate s = Idle \<longleftrightarrow> ftype f = Ack)"
    by (rule co_response_session [OF assms])
  from ses ch have out: "lk.chan_inv (co_hist \<sigma>) (co \<sigma>) (pe \<sigma>) (data_of (to_peer \<sigma>)) (acks_of (p # ps))"
    and incoming: "lk.chan_inv (pe_hist \<sigma>) (pe \<sigma>) (co \<sigma>) (data_of (p # ps)) (acks_of (to_peer \<sigma>))"
    by (auto simp: session_def)
  note took = chan_takes [OF out incoming f(1-3)]
  have "cstate s = Idle \<longrightarrow> \<not> peer_has_pending s"
    using k by (auto split: if_splits)
  with f(4) took(1,2) ses ch inv lk.chan_wf [OF took(1)] show ?thesis
    by (auto simp: sys_inv_def session_def)
qed

lemma inv_co_timeout:
  assumes inv: "sys_inv \<sigma>" and aw: "awaiting \<sigma> = Some tx"
    and res: "coordinator_response env tx (co \<sigma>) = Some (TimeoutFailure, s)"
  shows "sys_inv (\<sigma>\<lparr>co := s, awaiting := None\<rparr>)"
proof -
  from inv aw have ses: "session \<sigma>" and wf: "link_wf (co \<sigma>)" "mode_ok (co \<sigma>)"
    by (auto simp: sys_inv_def)
  from coordinator_response_cases [OF res wf(2)] have
    v: "tx_view s = tx_view (co \<sigma>)" "rx_view s = rx_view (co \<sigma>)" and
    m: "mode_ok s" "peer_has_pending s = peer_has_pending (co \<sigma>)"
      "connection_reset_required s \<or> cstate s = cstate (co \<sigma>)"
    by metis+
  from ses v have
    "lk.chan_inv (co_hist \<sigma>) s (pe \<sigma>) (data_of (to_peer \<sigma>)) (acks_of (to_coord \<sigma>))"
    "lk.chan_inv (pe_hist \<sigma>) (pe \<sigma>) s (data_of (to_coord \<sigma>)) (acks_of (to_peer \<sigma>))"
    by (auto simp: session_def intro: chan_cong_both)
  with ses m inv link_wf_view [OF v] show ?thesis
    by (auto simp: sys_inv_def session_def)
qed

lemma inv_pe_receive:
  assumes inv: "sys_inv \<sigma>" and ch: "to_peer \<sigma> = p # ps" and env: "rx_fifo (pe_recv env) = p"
    and ready: "WaitForRxReady (pe_recv env) (irq_line (pe \<sigma>) \<noteq> None) 0 = Some Success"
    and st: "Peer_step env (pe \<sigma>) = Some s"
  shows "sys_inv (\<sigma>\<lparr>pe := s, to_peer := ps, to_coord := to_coord \<sigma> @ sent_between (pe \<sigma>) s\<rparr>)"
proof -
  have wf: "link_wf s"
    using Peer_step_wf [OF st] inv by (simp add: sys_inv_def)
  show ?thesis
  proof (cases "connection_reset_required (co \<sigma>)")
    case True
    with wf inv show ?thesis by (simp add: sys_inv_def)
  next
    case False
    with inv have ses: "session \<sigma>" by (simp add: sys_inv_def)
    obtain f u q tx where
      f: "DecodeMacFrame p = Some f" "tx_view u = tx_view (link_after f (pe \<sigma>))"
        "rx_view u = rx_view (link_after f (pe \<sigma>))" and
      q: "sent_between (pe \<sigma>) s = [q]" "DecodeMacFrame q = Some tx" "sends tx u s" and
      k: "if p = reset_packet then q = reset_packet \<and> cleared s
        else reset_packet \<notin> set ps \<and> peer_frame_ok tx \<and> ftype tx = response_type f (has_data u)"
      by (rule pe_receive_session [OF inv ses ch env ready st])
    from ses ch have
      out: "lk.chan_inv (pe_hist \<sigma>) (pe \<sigma>) (co \<sigma>) (data_of (to_coord \<sigma>)) (acks_of (p # ps))" and
      incoming: "lk.chan_inv (co_hist \<sigma>) (co \<sigma>) (pe \<sigma>) (data_of (p # ps)) (acks_of (to_coord \<sigma>))"
      by (auto simp: session_def)
    note took = chan_takes [OF out incoming f]
    have air: "requests_after_resets ps" "reset_packet \<in> set ps \<longrightarrow> cleared s"
      "q = reset_packet \<or> peer_frame_ok tx"
      using requests_head(1) [of p ps] ses ch k by (auto simp: session_def split: if_splits)
    from chan_sends [OF took(1,2) q(2,3)] ses ch q air wf inv show ?thesis
      by (auto simp: sys_inv_def session_def)
  qed
qed

lemma inv_pe_idle:
  assumes inv: "sys_inv \<sigma>"
    and idle: "WaitForRxReady (pe_recv env) (irq_line (pe \<sigma>) \<noteq> None) 0 \<noteq> Some Success"
    and st: "Peer_step env (pe \<sigma>) = Some s"
  shows "sys_inv (\<sigma>\<lparr>pe := s\<rparr>)"
proof -
  from Peer_step_cases [OF st] idle have v: "tx_view s = tx_view (pe \<sigma>)" "rx_view s = rx_view (pe \<sigma>)"
    by metis+
  with inv show ?thesis
    using link_wf_view [OF v] cleared_view [OF v]
      chan_cong_both [of "co_hist \<sigma>" "co \<sigma>" "pe \<sigma>" _ _ "pe_hist \<sigma>" _ _ "co \<sigma>" s]
    by (auto simp: sys_inv_def session_def)
qed

lemma inv_channel:
  assumes inv: "sys_inv \<sigma>"
  shows "to_peer \<sigma> = xs @ p # ys \<Longrightarrow> sys_inv (\<sigma>\<lparr>to_peer := xs @ ys\<rparr>)"
    and "to_coord \<sigma> = xs @ p # ys \<Longrightarrow> sys_inv (\<sigma>\<lparr>to_coord := xs @ ys\<rparr>)"
    and "to_peer \<sigma> = xs @ p # ys \<Longrightarrow> sys_inv (\<sigma>\<lparr>to_peer := xs @ p # p # ys\<rparr>)"
    and "to_coord \<sigma> = xs @ p # ys \<Longrightarrow> sys_inv (\<sigma>\<lparr>to_coord := xs @ p # p # ys\<rparr>)"
proof -
  from inv have i: "link_wf (co \<sigma>)" "link_wf (pe \<sigma>)" "mode_ok (co \<sigma>)"
      "awaiting \<sigma> \<noteq> None \<longrightarrow> \<not> connection_reset_required (co \<sigma>)"
      "\<not> connection_reset_required (co \<sigma>) \<Longrightarrow> session \<sigma>"
    by (auto simp: sys_inv_def)
  show "to_peer \<sigma> = xs @ p # ys \<Longrightarrow> sys_inv (\<sigma>\<lparr>to_peer := xs @ ys\<rparr>)"
    using i requests_lose [of xs p ys] chan_lose [of "co_hist \<sigma>" "co \<sigma>" "pe \<sigma>" xs p ys]
      chan_lose_back [of "pe_hist \<sigma>" "pe \<sigma>" "co \<sigma>" _ xs p ys]
    by (simp add: sys_inv_def session_def del: of_simps)
  show "to_coord \<sigma> = xs @ p # ys \<Longrightarrow> sys_inv (\<sigma>\<lparr>to_coord := xs @ ys\<rparr>)"
    using i chan_lose [of "pe_hist \<sigma>" "pe \<sigma>" "co \<sigma>" xs p ys]
      chan_lose_back [of "co_hist \<sigma>" "co \<sigma>" "pe \<sigma>" _ xs p ys]
    by (simp add: sys_inv_def session_def del: of_simps)
  show "to_peer \<sigma> = xs @ p # ys \<Longrightarrow> sys_inv (\<sigma>\<lparr>to_peer := xs @ p # p # ys\<rparr>)"
    using i requests_lose [of xs p ys] chan_dup [of "co_hist \<sigma>" "co \<sigma>" "pe \<sigma>" xs p ys]
      chan_dup_back [of "pe_hist \<sigma>" "pe \<sigma>" "co \<sigma>" _ xs p ys]
    by (simp add: sys_inv_def session_def del: of_simps)
  show "to_coord \<sigma> = xs @ p # ys \<Longrightarrow> sys_inv (\<sigma>\<lparr>to_coord := xs @ p # p # ys\<rparr>)"
    using i chan_dup [of "pe_hist \<sigma>" "pe \<sigma>" "co \<sigma>" xs p ys]
      chan_dup_back [of "co_hist \<sigma>" "co \<sigma>" "pe \<sigma>" _ xs p ys]
    by (simp add: sys_inv_def session_def del: of_simps)
qed

lemma inv_reset_fails:
  assumes inv: "sys_inv \<sigma>" and crr: "connection_reset_required (co \<sigma>)"
    and st: "Run_step env (co \<sigma>) = Some s" and still: "connection_reset_required s"
  shows "sys_inv (\<sigma>\<lparr>co := s, to_peer := to_peer \<sigma> @ sent_between (co \<sigma>) s\<rparr>)"
proof -
  from inv have i: "link_wf (co \<sigma>)" "link_wf (pe \<sigma>)" "mode_ok (co \<sigma>)" "awaiting \<sigma> = None"
    using crr by (auto simp: sys_inv_def)
  have "link_wf s \<and> mode_ok s"
    using st crr i(3)
    by (cases rule: reset_pass_cases)
      (use i(1) link_wf_view [of s "co \<sigma>"] link_wf_clear_view [of "co \<sigma>" s] in auto)
  with i still show ?thesis by (simp add: sys_inv_def)
qed

lemma inv_reset_succeeds:
  assumes inv: "sys_inv \<sigma>" and crr: "connection_reset_required (co \<sigma>)"
    and st: "Run_step env (co \<sigma>) = Some s" and up: "\<not> connection_reset_required s"
    and req: "sent_between (co \<sigma>) s = [rx_fifo (pe_recv penv)]"
    and ready: "WaitForRxReady (pe_recv penv) (irq_line (pe \<sigma>) \<noteq> None) 0 = Some Success"
    and pst: "Peer_step penv (pe \<sigma>) = Some r" and air: "only_resets (xs @ ys)"
  shows "sys_inv (\<sigma>\<lparr>co := s, pe := r, to_peer := xs, to_coord := ys,
       co_hist := (read_buffer s, tun_out r), pe_hist := (read_buffer r, tun_out s)\<rparr>)"
proof -
  from inv have i: "link_wf (co \<sigma>)" "link_wf (pe \<sigma>)" "mode_ok (co \<sigma>)" "awaiting \<sigma> = None"
    using crr by (auto simp: sys_inv_def)
  have c: "tx_view s = tx_view (clear_session (co \<sigma>))" "rx_view s = rx_view (clear_session (co \<sigma>))"
      "sent_between (co \<sigma>) s = [reset_packet]" "mode_ok s" "cstate s = Idle" "\<not> peer_has_pending s"
    using st crr i(3) by (cases rule: reset_pass_cases; use up in simp)+
  have wf: "link_wf s" "link_wf r"
    using link_wf_clear_view [OF i(1) c(1,2)] Peer_step_wf [OF pst i(2)] by simp_all
  have fifo: "rx_fifo (pe_recv penv) = reset_packet"
    using req c(3) by simp
  have cl: "cleared s" "cleared r"
    using c(1,2) peer_reset_pass(1,2) [OF pst fifo ready] cleared_view cleared_clear by metis+
  then have "lk.chan_inv (read_buffer s, tun_out r) s r [] []"
      "lk.chan_inv (read_buffer r, tun_out s) r s [] []"
    using wf chan_fresh by (auto simp: cleared_def)
  moreover have xy: "only_resets xs" "only_resets ys"
    using air by (auto simp: only_resets_def)
  ultimately have "lk.chan_inv (read_buffer s, tun_out r) s r (data_of xs) (acks_of ys)"
      "lk.chan_inv (read_buffer r, tun_out s) r s (data_of ys) (acks_of xs)"
    using cl by (auto intro!: chan_resets simp: cleared_def)
  with wf c i cl xy requests_only_resets [OF xy(1)] show ?thesis
    by (simp add: sys_inv_def session_def only_resets_def)
qed

lemma sys_step_inv:
  assumes "sys_inv \<sigma>" and "sys_step \<sigma> \<sigma>'"
  shows "sys_inv \<sigma>'"
  using assms(2,1)
  by (induction rule: sys_step.induct)
    (fact inv_co_tunnel inv_pe_tunnel inv_co_request inv_co_response inv_co_timeout
      inv_pe_receive inv_pe_idle inv_channel inv_reset_fails inv_reset_succeeds |
     erule inv_co_tunnel inv_pe_tunnel inv_co_request inv_co_response inv_co_timeout
      inv_pe_receive inv_pe_idle inv_channel inv_reset_fails inv_reset_succeeds, assumption+)+

theorem reachable_inv: "reachable \<sigma> \<Longrightarrow> sys_inv \<sigma>"
proof (induction rule: reachable.induct)
  case start
  then show ?case by (rule inv_start)
next
  case (step \<sigma> \<sigma>')
  from step.IH step.hyps(2) show ?case by (rule sys_step_inv)
qed

end
