(* ===== verification/Delivery.thy ===== *)
theory Delivery
  imports Link_System
begin

text \<open>
  What a session delivers. The abstract specification of one direction is a FIFO queue of IP packets
  (\<open>fifo_step\<close>); every step of the system refines it, in both directions, whatever the channel loses
  or repeats.
\<close>

section \<open>The abstract queue\<close>

text \<open>
  The first component is what has been accepted and not carried over, the second what has been
  written to the tunnel at the other end. Carrying over writes the packet if it is a valid IP packet.
\<close>

inductive fifo_step :: "bytes list \<times> bytes list \<Rightarrow> bytes list \<times> bytes list \<Rightarrow> bool" where
  stutter: "fifo_step x x"
| accept_packet: "IsValidIpPacket p \<Longrightarrow> fifo_step (q, w) (q @ [p], w)"
| carry_over: "fifo_step (p # q, w) (q, w @ filter IsValidIpPacket [p])"

section \<open>The abstraction function\<close>

text \<open>
  A receiver that has accepted the fragment in flight is ahead of its sender; the fragment then no
  longer counts as waiting.
\<close>

definition waiting :: "'a link_scheme \<Rightarrow> 'b link_scheme \<Rightarrow> bytes list" where
  "waiting s r =
     (if tx_in_flight s \<and> last_rx_seq r = Some (next_tx_seq s)
      then outstanding (CommitAckLocked (next_tx_seq s) s) r else outstanding s r)"

definition direction :: "'a link_scheme \<Rightarrow> 'b link_scheme \<Rightarrow> bytes list \<times> bytes list" where
  "direction s r = (waiting s r, tun_out r)"

lemma outstanding_cong:
  "read_buffer s' = read_buffer s \<Longrightarrow> frame_buffer r' = frame_buffer r \<Longrightarrow>
     outstanding s' r' = outstanding s r"
  by (simp add: outstanding_def split: list.split)

lemma direction_cong:
  assumes "tx_view s' = tx_view s" and "rx_view r' = rx_view r"
  shows "direction s' r' = direction s r"
proof -
  have "tx_view (CommitAckLocked (next_tx_seq s) s') = tx_view (CommitAckLocked (next_tx_seq s) s)"
    using commit_cong [OF assms(1)] .
  then show ?thesis
    using assms outstanding_cong [of s' s r' r]
      outstanding_cong [of "CommitAckLocked (next_tx_seq s) s'" "CommitAckLocked (next_tx_seq s) s" r' r]
    by (simp add: direction_def waiting_def view_defs)
qed

text \<open>The channel invariant says which of the two cases holds, and both ends' relation in it.\<close>

lemma chan_waiting:
  assumes "lk.chan_inv g s r ds as"
  shows "\<exists>fin. fst g = fin @ waiting s r \<and> tun_out r = snd g @ filter IsValidIpPacket fin"
proof -
  have "sync g s r \<and> \<not> (tx_in_flight s \<and> last_rx_seq r = Some (next_tx_seq s)) \<or>
      tx_in_flight s \<and> last_rx_seq r = Some (next_tx_seq s) \<and>
      sync g (CommitAckLocked (next_tx_seq s) s) r"
    using assms NextSeq_neq by (auto simp: lk.chan_inv_def lk.level_def lk.ahead_def lk.in_step_def)
  then show ?thesis
    by (auto simp: sync_def waiting_def)
qed

section \<open>The operations refine the queue\<close>

lemma direction_start:
  assumes "lk.chan_inv g s r ds as" and "has_data s"
  shows "direction (in_flight s) r = direction s r"
proof (cases "tx_in_flight s")
  case True
  then show ?thesis by (simp add: in_flight_def)
next
  case False
  with assms have wf: "link_wf (in_flight s)" and busy: "tx_in_flight (in_flight s)"
    using link_wf_start lk.chan_wf [OF assms(1)] by (auto simp: frame_simps)
  from False assms(1) have "last_rx_seq r \<noteq> Some (next_tx_seq s)"
    using NextSeq_neq by (auto simp: lk.chan_inv_def lk.level_def lk.ahead_def lk.in_step_def)
  with False show ?thesis
    using outstanding_cong [of "in_flight s" s r r]
    by (simp add: direction_def waiting_def frame_simps)
qed

lemma direction_sends:
  assumes "lk.chan_inv g s r ds as" and "sends f s s'"
  shows "direction s' r = direction s r"
  using assms direction_start [OF assms(1)] direction_cong [of s' s r r]
    direction_cong [of s' "in_flight s" r r]
  by (auto simp: sends_def split: if_splits)

lemma outstanding_push:
  "read_buffer s = [] \<Longrightarrow> frame_buffer r = [] \<Longrightarrow> outstanding (tunnel_push p s) r = [p]"
  "read_buffer s \<noteq> [] \<Longrightarrow> outstanding (tunnel_push p s) r = outstanding s r @ [p]"
  by (auto simp: outstanding_def tunnel_push_def split: list.split)

lemma direction_push:
  assumes "lk.chan_inv g s r ds as" and "IsValidIpPacket p"
  shows "fifo_step (direction s r) (direction (tunnel_push p s) r)"
proof -
  have push: "outstanding (tunnel_push p t) r = outstanding t r @ [p]" if "sync h t r" for h t
    using that outstanding_push(1) [of t r p] outstanding_push(2) [of t p r]
    by (cases "read_buffer t") (auto simp: sync_def outstanding_def)
  have "waiting (tunnel_push p s) r = waiting s r @ [p]"
  proof (cases "tx_in_flight s \<and> last_rx_seq r = Some (next_tx_seq s)")
    case True
    let ?c = "CommitAckLocked (next_tx_seq s) s"
    have "sync g ?c r"
      using True assms(1) NextSeq_neq
      by (auto simp: lk.chan_inv_def lk.level_def lk.ahead_def lk.in_step_def)
    moreover have "outstanding (CommitAckLocked (next_tx_seq s) (tunnel_push p s)) r
        = outstanding (tunnel_push p ?c) r"
      using commit_push [of s "next_tx_seq s" p] True lk.chan_wf [OF assms(1)]
      by (intro outstanding_cong) simp_all
    moreover have "tx_in_flight (tunnel_push p s) = tx_in_flight s"
        "next_tx_seq (tunnel_push p s) = next_tx_seq s"
      by (simp_all add: tunnel_push_def)
    ultimately show ?thesis
      using True push by (simp add: waiting_def)
  next
    case False
    then have "sync g s r"
      using assms(1) by (auto simp: lk.chan_inv_def lk.level_def lk.ahead_def)
    from push [OF this] have "outstanding (tunnel_push p s) r = outstanding s r @ [p]" .
    moreover have "tx_in_flight (tunnel_push p s) = tx_in_flight s"
        "next_tx_seq (tunnel_push p s) = next_tx_seq s"
      by (simp_all add: tunnel_push_def)
    ultimately show ?thesis
      using False by (auto simp: waiting_def)
  qed
  then show ?thesis
    using assms(2) by (simp add: direction_def accept_packet)
qed

lemma direction_commit:
  assumes "lk.chan_inv g s r ds (a # as)"
  shows "direction (CommitAckLocked a s) r = direction s r"
proof (cases "tx_in_flight s \<and> a = next_tx_seq s")
  case False
  then show ?thesis
    using commit_other_ack [of s a] lk.chan_wf [OF assms] by auto
next
  case True
  have wf: "link_wf s" using lk.chan_wf [OF assms] .
  have "last_rx_seq r = Some (next_tx_seq s)"
    using assms True lk.in_step_ack [OF wf, of r]
    by (auto simp: lk.chan_inv_def lk.level_def lk.ahead_def)
  moreover have "\<not> tx_in_flight (CommitAckLocked (next_tx_seq s) s)"
    using True wf by (cases "read_buffer s") (auto simp: commit_current, simp add: link_wf_def)
  ultimately show ?thesis
    using True by (simp add: direction_def waiting_def)
qed

text \<open>A fragment that arrives carries its packet over if it is the last one.\<close>

lemma accept_outstanding:
  assumes wf: "link_wf s" and fl: "tx_in_flight s"
    and f: "arg f = tx_inflight_bytes_left s" "payload f = tx_inflight_payload s"
  shows "fifo_step (outstanding s r, tun_out r)
    (outstanding (CommitAckLocked (next_tx_seq s) s) (accept_fragment f r), tun_out (accept_fragment f r))"
proof -
  obtain p ps where rb: "read_buffer s = p # ps"
    using wf fl by (cases "read_buffer s") (auto simp: link_wf_def)
  note frag = wf_fragment [OF wf fl rb]
  have ne: "payload f \<noteq> []"
    using frag f by simp
  note acc = accept_fragment_fields [OF ne, of r]
  show ?thesis
  proof (cases "length p \<le> 27")
    case True
    have "outstanding (CommitAckLocked (next_tx_seq s) s) (accept_fragment f r) = ps"
      using True frag f acc
      by (simp add: outstanding_def commit_current [OF wf fl rb] split: list.split)
    moreover have "outstanding s r = (frame_buffer r @ p) # ps"
      by (simp add: outstanding_def rb)
    ultimately show ?thesis
      using True frag f acc carry_over [of "frame_buffer r @ p" ps "tun_out r"] by simp
  next
    case False
    then have "outstanding (CommitAckLocked (next_tx_seq s) s) (accept_fragment f r) = outstanding s r"
      "tun_out (accept_fragment f r) = tun_out r"
      using frag f acc by (simp_all add: outstanding_def commit_current [OF wf fl rb] rb)
    then show ?thesis by (simp add: stutter)
  qed
qed


lemma direction_consume:
  assumes inv: "lk.chan_inv g s r ((seq f, arg f, payload f) # ds) as" and data: "ftype f = Data"
  shows "fifo_step (direction s r) (direction s (snd (ConsumeDataFrameLocked f r)))"
proof (cases "last_rx_seq r = Some (seq f)")
  case True
  have "seq f \<noteq> 0"
    using lk.chan_expected [OF inv] by auto
  with True show ?thesis
    by (simp add: consume_duplicate stutter)
next
  case False
  from inv have wf: "link_wf s" and lv: "lk.level g s r ((seq f, arg f, payload f) # ds) as"
    using False by (auto simp: lk.chan_inv_def lk.ahead_def)
  then have "tx_in_flight s \<and> (seq f, arg f, payload f) = (next_tx_seq s, tx_fragment s)"
    using False by (auto simp: lk.level_def dest: two_phase_headQ)
  then have fl: "tx_in_flight s" and q: "seq f = next_tx_seq s"
    and af: "arg f = tx_inflight_bytes_left s" "payload f = tx_inflight_payload s"
    by (auto simp: tx_fragment_def)
  obtain p ps where rb: "read_buffer s = p # ps"
    using wf fl by (cases "read_buffer s") (auto simp: link_wf_def)
  have ne: "payload f \<noteq> []"
    using wf_fragment [OF wf fl rb] af by simp
  have "ConsumeDataFrameLocked f r = (True, accept_fragment f r)"
    using lk.chan_expected [OF inv] False data NextSeq_neq
    by (intro consume_expected) auto
  moreover have "last_rx_seq r \<noteq> Some (next_tx_seq s)"
    using False q by simp
  ultimately show ?thesis
    using accept_outstanding [OF wf fl af, of r] accept_fragment_fields(1) [OF ne, of r] q fl
    by (simp add: direction_def waiting_def)
qed

lemma direction_takes:
  fixes s s' :: "'a link_scheme" and r :: "'b link_scheme"
  assumes out: "lk.chan_inv g s r ds (acks_of (p # ps))"
    and incoming: "lk.chan_inv h r s (data_of (p # ps)) as"
    and p: "DecodeMacFrame p = Some f"
    and views: "tx_view s' = tx_view (link_after f s)" "rx_view s' = rx_view (link_after f s)"
  shows "direction s' r = direction s r" and "fifo_step (direction r s) (direction r s')"
proof -
  have "tx_view s' = tx_view (CommitAckLocked (ack f) s)"
    using views(1) by (simp add: link_after_def)
  then have "direction s' r = direction (CommitAckLocked (ack f) s) r"
    by (intro direction_cong) simp_all
  also have "\<dots> = direction s r"
    using out p by (intro direction_commit [of g s r ds _ "acks_of ps"]) (simp add: packet_ack_def)
  finally show "direction s' r = direction s r" .
  have c: "rx_view (CommitAckLocked (ack f) s) = rx_view s"
    by simp
  show "fifo_step (direction r s) (direction r s')"
  proof (cases "ftype f = Data")
    case True
    have "rx_view s' = rx_view (snd (ConsumeDataFrameLocked f s))"
      using views(2) True consume_cong(2) [OF c, of f] by (simp add: link_after_def)
    then have "direction r s' = direction r (snd (ConsumeDataFrameLocked f s))"
      by (intro direction_cong) simp_all
    moreover have "lk.chan_inv h r s ((seq f, arg f, payload f) # data_of ps) as"
      using incoming p True by (simp add: packet_data_def)
    ultimately show ?thesis
      using direction_consume True by metis
  next
    case False
    then have "rx_view s' = rx_view s"
      using views(2) by (simp add: link_after_def)
    then have "direction r s' = direction r s"
      by (intro direction_cong) simp_all
    then show ?thesis by (simp add: stutter)
  qed
qed

section \<open>The system refines two queues\<close>

lemma refine_co_tunnel:
  assumes ses: "session \<sigma>" and st: "TunnelThread_step input (co_pc \<sigma>, co \<sigma>) = (pc, s)"
  shows "fifo_step (direction (co \<sigma>) (pe \<sigma>)) (direction s (pe \<sigma>)) \<and>
    direction (pe \<sigma>) s = direction (pe \<sigma>) (co \<sigma>)"
  using st
proof (cases rule: TunnelThread_cases)
  case quiet
  then show "fifo_step (direction (co \<sigma>) (pe \<sigma>)) (direction s (pe \<sigma>)) \<and>
    direction (pe \<sigma>) s = direction (pe \<sigma>) (co \<sigma>)"
    using direction_cong [OF quiet(1) refl, of "pe \<sigma>"] direction_cong [OF refl quiet(2), of "pe \<sigma>"]
    by (simp_all add: stutter)
next
  case (push p)
  from ses have "lk.chan_inv (co_hist \<sigma>) (co \<sigma>) (pe \<sigma>) (data_of (to_peer \<sigma>)) (acks_of (to_coord \<sigma>))"
    by (simp add: session_def)
  from direction_push [OF this push(2)] show ?thesis
    using push(1) direction_cong [of "pe \<sigma>" "pe \<sigma>" s "co \<sigma>"] by simp
qed

lemma refine_pe_tunnel:
  assumes ses: "session \<sigma>" and st: "TunnelThread_step input (pe_pc \<sigma>, pe \<sigma>) = (pc, s)"
  shows "fifo_step (direction (pe \<sigma>) (co \<sigma>)) (direction s (co \<sigma>)) \<and>
    direction (co \<sigma>) s = direction (co \<sigma>) (pe \<sigma>)"
  using st
proof (cases rule: TunnelThread_cases)
  case quiet
  then show "fifo_step (direction (pe \<sigma>) (co \<sigma>)) (direction s (co \<sigma>)) \<and>
    direction (co \<sigma>) s = direction (co \<sigma>) (pe \<sigma>)"
    using direction_cong [OF quiet(1) refl, of "co \<sigma>"] direction_cong [OF refl quiet(2), of "co \<sigma>"]
    by (simp_all add: stutter)
next
  case (push p)
  from ses have "lk.chan_inv (pe_hist \<sigma>) (pe \<sigma>) (co \<sigma>) (data_of (to_coord \<sigma>)) (acks_of (to_peer \<sigma>))"
    by (simp add: session_def)
  from direction_push [OF this push(2)] show ?thesis
    using push(1) direction_cong [of "co \<sigma>" "co \<sigma>" s "pe \<sigma>"] by simp
qed

lemma refine_co_request:
  assumes inv: "sys_inv \<sigma>" and up: "\<not> connection_reset_required (co \<sigma>)"
    and req: "coordinator_request env (co \<sigma>) = Some (tx, s)"
  shows "direction s (pe \<sigma>) = direction (co \<sigma>) (pe \<sigma>)"
    and "direction (pe \<sigma>) s = direction (pe \<sigma>) (co \<sigma>)"
proof -
  from inv up have ses: "session \<sigma>" and wf: "link_wf (co \<sigma>)" "mode_ok (co \<sigma>)"
    by (auto simp: sys_inv_def)
  have "\<exists>f. sends f (co \<sigma>) s"
    by (rule coordinator_request_cases [OF wf up req]) blast
  then obtain f where f: "sends f (co \<sigma>) s" ..
  with ses show "direction s (pe \<sigma>) = direction (co \<sigma>) (pe \<sigma>)"
    by (auto simp: session_def intro: direction_sends)
  show "direction (pe \<sigma>) s = direction (pe \<sigma>) (co \<sigma>)"
    using f by (intro direction_cong) (simp_all add: sends_def)
qed

lemma refine_co_response:
  assumes "sys_inv \<sigma>" and "awaiting \<sigma> = Some tx" and ch: "to_coord \<sigma> = p # ps"
    and "rx_fifo (x_recv (run_exchange env)) = p"
    and "coordinator_response env tx (co \<sigma>) = Some (result, s)" "result \<noteq> TimeoutFailure"
  shows "direction s (pe \<sigma>) = direction (co \<sigma>) (pe \<sigma>)"
    and "fifo_step (direction (pe \<sigma>) (co \<sigma>)) (direction (pe \<sigma>) s)"
proof -
  obtain f where f: "DecodeMacFrame p = Some f" "tx_view s = tx_view (link_after f (co \<sigma>))"
      "rx_view s = rx_view (link_after f (co \<sigma>))"
    by (rule co_response_session [OF assms])
  from assms(1,2) ch have
    "lk.chan_inv (co_hist \<sigma>) (co \<sigma>) (pe \<sigma>) (data_of (to_peer \<sigma>)) (acks_of (p # ps))"
    "lk.chan_inv (pe_hist \<sigma>) (pe \<sigma>) (co \<sigma>) (data_of (p # ps)) (acks_of (to_peer \<sigma>))"
    by (auto simp: sys_inv_def session_def)
  from direction_takes [OF this f(1-3)]
  show "direction s (pe \<sigma>) = direction (co \<sigma>) (pe \<sigma>)"
    and "fifo_step (direction (pe \<sigma>) (co \<sigma>)) (direction (pe \<sigma>) s)" .
qed

lemma refine_co_timeout:
  assumes inv: "sys_inv \<sigma>" and res: "coordinator_response env tx (co \<sigma>) = Some (TimeoutFailure, s)"
  shows "direction s (pe \<sigma>) = direction (co \<sigma>) (pe \<sigma>)"
    and "direction (pe \<sigma>) s = direction (pe \<sigma>) (co \<sigma>)"
proof -
  have "mode_ok (co \<sigma>)"
    using inv by (simp add: sys_inv_def)
  from coordinator_response_cases [OF res this] have
    v: "tx_view s = tx_view (co \<sigma>)" "rx_view s = rx_view (co \<sigma>)"
    by metis+
  then show "direction s (pe \<sigma>) = direction (co \<sigma>) (pe \<sigma>)"
    and "direction (pe \<sigma>) s = direction (pe \<sigma>) (co \<sigma>)"
    by (auto intro: direction_cong)
qed

lemma refine_pe_receive:
  assumes "sys_inv \<sigma>" and ses: "session \<sigma>" and ch: "to_peer \<sigma> = p # ps"
    and "rx_fifo (pe_recv env) = p"
    and "WaitForRxReady (pe_recv env) (irq_line (pe \<sigma>) \<noteq> None) 0 = Some Success"
    and "Peer_step env (pe \<sigma>) = Some s"
  shows "direction s (co \<sigma>) = direction (pe \<sigma>) (co \<sigma>)"
    and "fifo_step (direction (co \<sigma>) (pe \<sigma>)) (direction (co \<sigma>) s)"
proof -
  obtain f u q tx where
    f: "DecodeMacFrame p = Some f" "tx_view u = tx_view (link_after f (pe \<sigma>))"
      "rx_view u = rx_view (link_after f (pe \<sigma>))" and
    s: "sends tx u s"
    by (rule pe_receive_session [OF assms])
  from ses ch have
    out: "lk.chan_inv (pe_hist \<sigma>) (pe \<sigma>) (co \<sigma>) (data_of (to_coord \<sigma>)) (acks_of (p # ps))" and
    incoming: "lk.chan_inv (co_hist \<sigma>) (co \<sigma>) (pe \<sigma>) (data_of (p # ps)) (acks_of (to_coord \<sigma>))"
    by (auto simp: session_def)
  note u = direction_takes [OF out incoming f]
  show "direction s (co \<sigma>) = direction (pe \<sigma>) (co \<sigma>)"
    using direction_sends [OF chan_takes(1) [OF out incoming f] s] u(1) by simp
  have "direction (co \<sigma>) s = direction (co \<sigma>) u"
    using s by (intro direction_cong) (simp_all add: sends_def)
  with u(2) show "fifo_step (direction (co \<sigma>) (pe \<sigma>)) (direction (co \<sigma>) s)"
    by simp
qed

lemma refine_pe_idle:
  assumes "WaitForRxReady (pe_recv env) (irq_line (pe \<sigma>) \<noteq> None) 0 \<noteq> Some Success"
    and "Peer_step env (pe \<sigma>) = Some s"
  shows "direction s (co \<sigma>) = direction (pe \<sigma>) (co \<sigma>)"
    and "direction (co \<sigma>) s = direction (co \<sigma>) (pe \<sigma>)"
proof -
  from Peer_step_cases [OF assms(2)] assms(1) have
    "tx_view s = tx_view (pe \<sigma>)" "rx_view s = rx_view (pe \<sigma>)"
    by metis+
  then show "direction s (co \<sigma>) = direction (pe \<sigma>) (co \<sigma>)"
    and "direction (co \<sigma>) s = direction (co \<sigma>) (pe \<sigma>)"
    by (auto intro: direction_cong)
qed

text \<open>C3. Every step of the whole system within a session, whatever it is (a tunnel
  thread, either half of a pass of the coordinator, a timeout, a pass of the peer, the loss or the
  repetition of a packet), is a step of the abstract FIFO queue, or none, in each direction: packets
  are accepted at the end, leave at the front, and are written to the other tunnel when they leave
  if they are valid IP packets.\<close>

theorem session_refines_queues:
  assumes "reachable \<sigma>" and "sys_step \<sigma> \<sigma>'"
    and "\<not> connection_reset_required (co \<sigma>)" and "\<not> connection_reset_required (co \<sigma>')"
  shows "fifo_step (direction (co \<sigma>) (pe \<sigma>)) (direction (co \<sigma>') (pe \<sigma>')) \<and>
    fifo_step (direction (pe \<sigma>) (co \<sigma>)) (direction (pe \<sigma>') (co \<sigma>'))"
proof -
  have inv: "sys_inv \<sigma>" using assms(1) by (rule reachable_inv)
  with assms(3) have ses: "session \<sigma>" by (simp add: sys_inv_def)
  from assms(2) show ?thesis
    using inv ses assms(3,4)
    by (cases rule: sys_step.cases)
      (simp_all add: stutter refine_co_tunnel refine_pe_tunnel refine_co_request refine_co_response
        refine_co_timeout refine_pe_receive refine_pe_idle)
qed

lemma session_delivery:
  assumes "sys_inv \<sigma>" and "\<not> connection_reset_required (co \<sigma>)"
  shows "(\<exists>done. fst (co_hist \<sigma>) = done @ waiting (co \<sigma>) (pe \<sigma>) \<and>
      tun_out (pe \<sigma>) = snd (co_hist \<sigma>) @ filter IsValidIpPacket done) \<and>
    (\<exists>done. fst (pe_hist \<sigma>) = done @ waiting (pe \<sigma>) (co \<sigma>) \<and>
      tun_out (co \<sigma>) = snd (pe_hist \<sigma>) @ filter IsValidIpPacket done)"
proof -
  have "session \<sigma>"
    using assms by (simp add: sys_inv_def)
  then have
    "lk.chan_inv (co_hist \<sigma>) (co \<sigma>) (pe \<sigma>) (data_of (to_peer \<sigma>)) (acks_of (to_coord \<sigma>))" and
    "lk.chan_inv (pe_hist \<sigma>) (pe \<sigma>) (co \<sigma>) (data_of (to_coord \<sigma>)) (acks_of (to_peer \<sigma>))"
    by (simp_all add: session_def)
  from chan_waiting [OF this(1)] chan_waiting [OF this(2)] show ?thesis
    by blast
qed

text \<open>C1. In every reachable state of a session, in both directions: what the
  receiver has written to its tunnel since the session began is exactly the valid IP packets, in
  order and each once, of a prefix of the packets offered to the sender, and the rest of these
  packets is still waiting; whatever packets the channel lost, repeated or delayed, RESETs and RESET
  replies of the handshake among them.\<close>

theorem session_delivers_in_order:
  assumes "reachable \<sigma>" and "\<not> connection_reset_required (co \<sigma>)"
  shows "(\<exists>done. fst (co_hist \<sigma>) = done @ waiting (co \<sigma>) (pe \<sigma>) \<and>
      tun_out (pe \<sigma>) = snd (co_hist \<sigma>) @ filter IsValidIpPacket done) \<and>
    (\<exists>done. fst (pe_hist \<sigma>) = done @ waiting (pe \<sigma>) (co \<sigma>) \<and>
      tun_out (co \<sigma>) = snd (pe_hist \<sigma>) @ filter IsValidIpPacket done)"
  using session_delivery [OF reachable_inv [OF assms(1)] assms(2)] .

text \<open>C38. In every reachable state of a session an idle coordinator with
  queued packets sends DATA, however many DATA frames it sent before: the branch of
  \<open>ChooseCoordinatorTxFrame\<close> that issues a fair GRANT after two of them needs a pending peer in state
  \<open>Idle\<close>, and that combination does not occur.\<close>

theorem idle_coordinator_sends_data:
  assumes "reachable \<sigma>" and "\<not> connection_reset_required (co \<sigma>)" and "cstate (co \<sigma>) = Idle"
    and "has_data (co \<sigma>)"
  shows "\<exists>tx s. ChooseCoordinatorTxFrame (co \<sigma>) = (True, tx, s) \<and> ftype tx = Data"
proof -
  have "session \<sigma>"
    using reachable_inv [OF assms(1)] assms(2) by (simp add: sys_inv_def)
  with assms(3,4) show ?thesis
    by (simp add: session_def choose_eq Let_def data_frame_def)
qed

end
