(* ===== verification/Coordinator_Run.thy ===== *)
theory Coordinator_Run
  imports Coordinator
begin

text \<open>
  What a pass of \<open>PrimaryRadioInterface::Run\<close> does to the failure bookkeeping and to the radio,
  whatever the device, the clock and the other side do: the cases of a pass (\<open>Run_step_cases\<close>) and
  the properties of the coordinator that follow from them.
\<close>

section \<open>What a pass of \<open>Run\<close> does to the failure state\<close>

definition fail_view :: "coordinator \<Rightarrow> int \<times> int \<times> int \<times> bool \<times> bool \<times> u64 \<times> u64" where
  "fail_view s = (send_fail_streak s, timeout_fail_streak s, poll_fail_count s, disconnected s,
     connection_reset_required s, disconnect_backoff_us s, next_retry_time_us s)"

lemma fail_view_more: "link.more s' = link.more s \<Longrightarrow> fail_view s' = fail_view s"
  by (cases s; cases s') (simp add: fail_view_def)

lemma fail_view_ops [simp]:
  "fail_view (dev c s) = fail_view s" "fail_view (clear_session s) = fail_view s"
  "fail_view (in_flight s) = fail_view s" "fail_view (link_after f s) = fail_view s"
  by (rule fail_view_more; simp add: frame_simps clear_session_def)+

lemma fail_view_fields [simp]:
  "fail_view (RecordSendFailure t s) = fail_view s" "fail_view (choose_poll_interval s) = fail_view s"
  "fail_view (coordinator_stats n s) = fail_view s"
  by (simp_all add: RecordSendFailure_def choose_poll_interval_def coordinator_stats_def fail_view_def
      Let_def split: FrameType.split)

lemma choose_fail_view: "fail_view (snd (snd (ChooseCoordinatorTxFrame s))) = fail_view s"
  using fail_view_ops(3) [of s]
  by (simp add: choose_eq Let_def choose_grant_def fail_view_def)

lemma apply_fail_view: "fail_view (snd (ApplyPeerResponse rx s)) = fail_view s"
  using fail_view_ops(4) [of rx s]
  by (cases "ftype rx") (simp_all add: apply_eq Let_def fail_view_def)

lemma apply_cstate:
  "cstate (snd (ApplyPeerResponse rx s)) = cstate s \<or> cstate (snd (ApplyPeerResponse rx s)) \<noteq> ResetSync"
  using control_after [of rx s]
  by (cases "ftype rx") (simp_all add: apply_eq Let_def control_def)

lemma conclude_control:
  "fail_view (snd (conclude_exchange tx rx s)) = fail_view s"
  "cstate (snd (conclude_exchange tx rx s)) = cstate s \<or>
     cstate (snd (conclude_exchange tx rx s)) \<noteq> ResetSync"
proof -
  obtain n m ops where eq: "snd (conclude_exchange tx rx s) =
     (snd (ApplyPeerResponse rx (s\<lparr>c_idle_log_counter := m\<rparr>)))
       \<lparr>consecutive_local_data_frames := n,
        dev_ops := dev_ops (snd (ApplyPeerResponse rx (s\<lparr>c_idle_log_counter := m\<rparr>))) @ ops\<rparr>"
    using conclude_eq [of tx rx s] by (elim exE conjE) (rule that)
  show "fail_view (snd (conclude_exchange tx rx s)) = fail_view s"
    using apply_fail_view [of rx "s\<lparr>c_idle_log_counter := m\<rparr>"] by (simp add: eq fail_view_def)
  show "cstate (snd (conclude_exchange tx rx s)) = cstate s \<or>
     cstate (snd (conclude_exchange tx rx s)) \<noteq> ResetSync"
    using apply_cstate [of rx "s\<lparr>c_idle_log_counter := m\<rparr>"] by (simp add: eq)
qed

lemma more_control:
  "link.more s' = link.more s \<Longrightarrow> fail_view s' = fail_view s \<and> cstate s' = cstate s"
  using fail_view_more [of s' s] control_mode [OF control_more, of s' s] by blast

text \<open>An exchange and a reset change the device; the failure fields are the caller's.\<close>

lemma request_control:
  assumes "exchange_request env s = Some (res, s')"
  shows "fail_view s' = fail_view s \<and> cstate s' = cstate s \<and> clean_use s s'"
proof -
  define t where "t = snd (snd (ChooseCoordinatorTxFrame s))"
  have "cstate (in_flight s) = cstate s" "dev_ops (in_flight s) = dev_ops s"
    using control_ops(4) [of s] by (simp_all add: control_def frame_simps)
  then have t: "fail_view t = fail_view s" "cstate t = cstate s" "dev_ops t = dev_ops s"
    using choose_fail_view [of s] by (simp_all add: t_def choose_eq Let_def choose_grant_def)
  from assms consider "s' = t"
    | env' p res' u where "Send env' p t = Some (res', u)"
        "fail_view s' = fail_view u" "cstate s' = cstate u" "dev_ops s' = dev_ops u"
  proof -
    let ?b = "\<lambda>u. u\<lparr>c_tx_send_fail_count := c_tx_send_fail_count u + 1\<rparr>"
    have "fail_view (RecordSendFailure f (?b u)) = fail_view u"
        "cstate (RecordSendFailure f (?b u)) = cstate u" for f u
      using send_failure_frame(4) [of f "?b u"] fail_view_fields(1) [of f "?b u"]
      by (simp_all add: fail_view_def control_def)
    with that assms show thesis
      by (auto simp: exchange_request_def t_def Let_def fail_view_def
          split: option.splits if_splits prod.splits)
  qed
  then show ?thesis
  proof cases
    case 1
    with t show ?thesis by (simp add: clean_use_same)
  next
    case (2 env' p res' u)
    with t more_control [OF Send_frame(11) [OF 2(1)]] Send_clean [OF 2(1)] show ?thesis
      by (simp add: clean_use_def)
  qed
qed

lemma conclude_clean: "clean_use s (snd (conclude_exchange tx rx s))"
proof -
  obtain n m ops where eq: "snd (conclude_exchange tx rx s) =
     (snd (ApplyPeerResponse rx (s\<lparr>c_idle_log_counter := m\<rparr>)))
       \<lparr>consecutive_local_data_frames := n,
        dev_ops := dev_ops (snd (ApplyPeerResponse rx (s\<lparr>c_idle_log_counter := m\<rparr>))) @ ops\<rparr>"
    and ops: "\<forall>m. disciplined m ops" "list_all short_sleep ops"
    using conclude_eq [of tx rx s] by (elim exE conjE) (rule that)
  show ?thesis
    using ops apply_response_views(3) [of rx "s\<lparr>c_idle_log_counter := m\<rparr>"]
    by (simp add: eq clean_use_def frame_simps)
qed

lemma response_control:
  assumes "exchange_response env tx s = Some (res, s')"
  shows "fail_view s' = fail_view s \<and> (cstate s' = cstate s \<or> cstate s' \<noteq> ResetSync) \<and>
    clean_use s s'"
proof -
  from assms obtain result bs u where
    rcv: "Receive env (replicate 32 0) kResponseTimeoutUs s = Some (result, bs, u)"
    by (auto simp: exchange_response_def split: option.splits)
  note u = more_control [OF Receive_frame(11) [OF rcv]] Receive_clean [OF rcv]
  consider (early) "fail_view s' = fail_view u" "cstate s' = cstate u" "dev_ops s' = dev_ops u"
    | (reply) rx where "s' = snd (conclude_exchange tx rx u)"
  proof (cases "result = Success")
    case False
    with assms rcv have "s' = u\<lparr>c_rx_timeout_count := c_rx_timeout_count u + 1,
        fail_log_counter := fail_log_counter u + 1\<rparr>"
      by (simp add: exchange_response_def)
    then show thesis by (intro early) (simp_all add: fail_view_def)
  next
    case True
    show thesis
    proof (cases "DecodeMacFrame bs")
      case None
      with True assms rcv show thesis by (intro early) (simp_all add: exchange_response_def)
    next
      case (Some rx)
      with True assms rcv show thesis by (intro reply [of rx]) (simp add: exchange_response_def)
    qed
  qed
  then show ?thesis
  proof cases
    case early
    with u show ?thesis by (simp add: clean_use_def)
  next
    case (reply rx)
    with u conclude_control [of tx rx u] conclude_clean [of u tx rx] show ?thesis
      by (auto intro: clean_use_trans)
  qed
qed

lemma exchange_control:
  assumes "PerformExchange env s = Some (res, s')"
  shows "fail_view s' = fail_view s \<and> (cstate s' = cstate s \<or> cstate s' \<noteq> ResetSync) \<and>
    clean_use s s'"
proof -
  from assms obtain r u where req: "exchange_request (x_send env) s = Some (r, u)"
    by (auto simp: PerformExchange_def split: option.splits)
  with assms have rest: "s' = u \<or> (\<exists>tx. exchange_response (x_recv env) tx u = Some (res, s'))"
    by (cases r) (auto simp: PerformExchange_def)
  from request_control [OF req] rest response_control show ?thesis
    by (metis clean_use_trans)
qed

lemma reset_control:
  assumes "ConnectionReset env s = Some (ok, s')"
  shows "fail_view s' = fail_view s \<and> cstate s' = cstate s \<and> clean_use s s'"
proof -
  have b: "fail_view (begin_reset s) = fail_view s" "cstate (begin_reset s) = cstate s"
      "clean_use s (begin_reset s)"
    by (simp_all add: begin_reset_def Let_def clear_session_def dev_def fail_view_def clean_use_def)
  from assms obtain result u where
    snd: "Send (x_send env) reset_packet (begin_reset s) = Some (result, u)"
    by (auto simp: ConnectionReset_def Let_def encode_reset_frame split: option.splits)
  note u = more_control [OF Send_frame(11) [OF snd]] Send_clean [OF snd]
  show ?thesis
  proof (cases "result = Success")
    case False
    with assms snd have "s' = u"
      by (simp add: ConnectionReset_def Let_def encode_reset_frame)
    with b u show ?thesis by (auto intro: clean_use_trans)
  next
    case True
    with assms snd obtain r bs v where
      rcv: "Receive (x_recv env) (replicate 32 0) kResponseTimeoutUs u = Some (r, bs, v)"
      by (auto simp: ConnectionReset_def Let_def encode_reset_frame split: option.splits)
    with True assms snd have "s' = v \<or> s' = dev FlushTx (dev FlushRx v)"
      by (auto simp: ConnectionReset_def Let_def encode_reset_frame split: option.splits if_splits)
    then have "fail_view s' = fail_view v \<and> cstate s' = cstate v \<and> clean_use v s'"
      by (auto simp: clean_use_def dev_def fail_view_def)
    with b u more_control [OF Receive_frame(11) [OF rcv]] Receive_clean [OF rcv] show ?thesis
      by (metis clean_use_trans)
  qed
qed

text \<open>The five ways a pass of \<open>Run\<close> ends.\<close>

lemma Run_step_cases:
  assumes "Run_step env s = Some s'"
  obtains (waits) "disconnected s" "loop_now env < next_retry_time_us s" "s' = dev (Sleep 1000) s"
  | (retried) u where "disconnected s" "\<not> loop_now env < next_retry_time_us s"
      "fail_view u = fail_view s" "cstate u = cstate s"
      "clean_use s u" "s' = retry_failed (fail_now env) u"
  | (connected) u where "disconnected s \<longrightarrow> \<not> loop_now env < next_retry_time_us s"
      "fail_view u = fail_view s" "clean_use s u" "s' = session_up u"
  | (reset_failed) u where "\<not> disconnected s" "connection_reset_required s"
      "fail_view u = fail_view s" "cstate u = cstate s" "clean_use s u"
      "s' = HandleTransactionFailure (fail_now env) Fail_Protocol u"
  | (exchanged) u res where "\<not> disconnected s" "\<not> connection_reset_required s"
      "fail_view u = fail_view s" "cstate u = cstate s \<or> cstate u \<noteq> ResetSync" "clean_use s u"
      "s' = coordinator_stats (stat_now env) (after_exchange (fail_now env) res u)"
proof (cases "disconnected s")
  case True
  show thesis
  proof (cases "loop_now env < next_retry_time_us s")
    case late: True
    with True assms show thesis
      by (intro waits) (simp_all add: Run_step_def)
  next
    case False
    with True assms obtain ok u where
      cr: "ConnectionReset (run_exchange env) s = Some (ok, u)" and
      s': "s' = (if \<not> ok then retry_failed (fail_now env) u else session_up u)"
      by (auto simp: Run_step_def split: option.splits)
    from reset_control [OF cr] s' True False show thesis
      by (cases ok) (auto intro: retried connected)
  qed
next
  case False
  define v where "v = dev (Sleep (current_poll_interval_us (choose_poll_interval s)))
    (choose_poll_interval s)"
  have v: "fail_view v = fail_view s" "cstate v = cstate s" "clean_use s v"
    by (simp_all add: v_def)
      (simp_all add: choose_poll_interval_def dev_def clean_use_def kIdlePollIntervalUs_def
        kActivePollIntervalUs_def)
  show thesis
  proof (cases "connection_reset_required s")
    case True
    with v(1) have "connection_reset_required v"
      by (simp add: fail_view_def)
    with False assms obtain ok u where
      cr: "ConnectionReset (run_exchange env) v = Some (ok, u)" and
      s': "s' = (if \<not> ok then HandleTransactionFailure (fail_now env) Fail_Protocol
                 (u\<lparr>reset_fail_log_counter := reset_fail_log_counter u + 1\<rparr>) else session_up u)"
      by (auto simp: Run_step_def v_def Let_def split: option.splits)
    let ?w = "u\<lparr>reset_fail_log_counter := reset_fail_log_counter u + 1\<rparr>"
    have u: "fail_view u = fail_view s" "cstate u = cstate s" "clean_use s u"
      using reset_control [OF cr] v clean_use_trans [of s v u] by auto
    then have "fail_view ?w = fail_view s" "cstate ?w = cstate s" "clean_use s ?w"
      by (simp_all add: fail_view_def clean_use_def)
    with u s' False True show thesis
      by (cases ok) (auto intro: reset_failed connected)
  next
    case up: False
    with v(1) have "\<not> connection_reset_required v"
      by (simp add: fail_view_def)
    with False assms obtain res u where
      ex: "PerformExchange (run_exchange env) v = Some (res, u)" and
      s': "s' = coordinator_stats (stat_now env) (after_exchange (fail_now env) res u)"
      by (auto simp: Run_step_def v_def Let_def split: option.splits)
    from exchange_control [OF ex] v clean_use_trans [of s v u] s' False up show thesis
      by (intro exchanged [of u res]) auto
  qed
qed

section \<open>Properties of a pass\<close>

text \<open>The two members that say whether a session must be established,
  \<open>connection_reset_required_\<close> and the state \<open>ResetSync\<close>, agree from construction on after every pass
  of \<open>Run\<close>, whatever the radio, the clock and the responses are; and a coordinator that counts as
  disconnected requires a reset.\<close>

lemma Run_keeps_mode:
  assumes "mode_ok s" and "Run_step env s = Some s'"
  shows "mode_ok s'"
  using assms(2)
proof (cases rule: Run_step_cases)
  case waits
  with assms(1) show ?thesis by (auto simp: mode_ok_def dev_def)
next
  case (retried u)
  with assms(1) have "mode_ok u"
    by (auto simp: mode_ok_def fail_view_def)
  with retried(6) show ?thesis
    using control_mode [OF retry_failed_frame(4)] by simp
next
  case (connected u)
  then show ?thesis by (simp add: mode_ok_def session_up_def)
next
  case (reset_failed u)
  with assms(1) have "mode_ok u"
    by (auto simp: mode_ok_def fail_view_def)
  with reset_failed(6) show ?thesis by (simp add: mode_ok_failure)
next
  case (exchanged u res)
  with assms(1) have "mode_ok u"
    by (auto simp: mode_ok_def fail_view_def)
  with exchanged(6) show ?thesis
    using control_mode [OF stats_frame(4)] mode_ok_after_exchange by simp
qed

lemma mode_ok_start: "mode_ok (PrimaryRadioInterface p q interval base)"
  by (simp add: mode_ok_def PrimaryRadioInterface_def Let_def dev_def coordinator.defs link.defs)

text \<open>A coordinator that is always told a timeout.\<close>

definition deaf_env :: run_env where
  "deaf_env = \<lparr>loop_now = 0,
     run_exchange = \<lparr>x_send = \<lparr>write_ok = False, send_start = 0, standby = (\<lambda>i. (False, 0))\<rparr>,
       x_recv = \<lparr>recv_start = 0, recv_obs = (\<lambda>i. \<lparr>available = False, now = 0,
         line_wait = (\<lambda>t. Wait_timeout), line_read = Read_ok\<rparr>), rx_fifo = []\<rparr>\<rparr>,
     fail_now = 7, stat_now = 0\<rparr>"

definition start_coordinator :: coordinator where
  "start_coordinator = PrimaryRadioInterface 1 2 100 (RadioInterface_init 0)"

lemma deaf_step: "\<exists>s'. Run_step deaf_env start_coordinator = Some s'"
  by (simp add: Run_step_def start_coordinator_def PrimaryRadioInterface_def Let_def dev_def
      coordinator.defs link.defs choose_poll_interval_def ConnectionReset_def encode_reset_frame
      begin_reset_def clear_session_def deaf_env_def Send_def reset_packet_def)

definition streaks_ok :: "coordinator \<Rightarrow> bool" where
  "streaks_ok s \<longleftrightarrow>
     0 \<le> send_fail_streak s \<and> 0 \<le> timeout_fail_streak s \<and>
     send_fail_streak s \<le> 5 \<and> timeout_fail_streak s \<le> 7 \<and>
     send_fail_streak s + timeout_fail_streak s \<le> 9 \<and>
     0 \<le> poll_fail_count s \<and> poll_fail_count s \<le> 9 \<and>
     (\<not> disconnected s \<longrightarrow> send_fail_streak s \<le> 4 \<and> timeout_fail_streak s \<le> 6 \<and>
        send_fail_streak s + timeout_fail_streak s \<le> 7)"

lemma streaks_ok_view: "fail_view s' = fail_view s \<Longrightarrow> streaks_ok s' = streaks_ok s"
  by (simp add: streaks_ok_def fail_view_def)

lemma streaks_ok_failure:
  "streaks_ok s \<Longrightarrow> \<not> disconnected s \<Longrightarrow> streaks_ok (HandleTransactionFailure t ft s)"
  by (cases ft)
    (simp_all add: streaks_ok_def HandleTransactionFailure_def Let_def kDisconnectFailureThreshold_def)

text \<open>C26. The failure counters, signed \<open>int\<close> members incremented on every
  failure, stay within fixed bounds after every pass of \<open>Run\<close>, so they never overflow: at most 5, 7
  and 9, and at most 4, 6 and 7 as long as the coordinator does not count as disconnected.\<close>

theorem failure_streaks_bounded:
  assumes "streaks_ok s" and "Run_step env s = Some s'"
  shows "streaks_ok s'"
  using assms(2)
proof (cases rule: Run_step_cases)
  case waits
  with assms(1) streaks_ok_view [of s' s] show ?thesis by simp
next
  case (retried u)
  with assms(1) streaks_ok_view [of u s] have "streaks_ok u" by simp
  with retried(6) show ?thesis
    by (simp add: streaks_ok_def retry_failed_def Let_def)
next
  case (connected u)
  then show ?thesis by (simp add: streaks_ok_def session_up_def)
next
  case (reset_failed u)
  with assms(1) streaks_ok_view [of u s] streaks_ok_failure [of u] show ?thesis
    by (simp add: fail_view_def)
next
  case (exchanged u res)
  with assms(1) streaks_ok_view [of u s] have u: "streaks_ok u" "\<not> disconnected u"
    by (simp_all add: fail_view_def)
  then have "streaks_ok (after_exchange (fail_now env) res u)"
    using streaks_ok_failure [OF u] by (cases res) (simp_all add: after_exchange_def streaks_ok_def)
  with exchanged(6) show ?thesis
    using streaks_ok_view [OF fail_view_fields(3)] by simp
qed

lemma fields_start:
  "send_fail_streak start_coordinator = 0" "timeout_fail_streak start_coordinator = 0"
  "poll_fail_count start_coordinator = 0" "\<not> disconnected start_coordinator"
  "connection_reset_required start_coordinator"
  "disconnect_backoff_us start_coordinator = 100000" "cstate start_coordinator = ResetSync"
  "\<not> peer_has_pending start_coordinator"
  by (simp_all add: start_coordinator_def PrimaryRadioInterface_def Let_def dev_def coordinator.defs
      link.defs kInitialDisconnectBackoffUs_def)

theorem failure_streaks_bounded_witness:
  "\<exists>s'. Run_step deaf_env start_coordinator = Some s' \<and> streaks_ok s'"
proof -
  have "streaks_ok start_coordinator"
    by (simp add: streaks_ok_def fields_start)
  then show ?thesis
    using deaf_step failure_streaks_bounded by blast
qed

lemma repeated_send:
  assumes "send_fail_streak s = 0" and "timeout_fail_streak s = 0" and "\<not> disconnected s"
  shows "send_fail_streak ((HandleTransactionFailure t Fail_Send ^^ n) s) = int n \<and>
    timeout_fail_streak ((HandleTransactionFailure t Fail_Send ^^ n) s) = 0 \<and>
    (disconnected ((HandleTransactionFailure t Fail_Send ^^ n) s) \<longleftrightarrow> 5 \<le> n)"
proof (induction n)
  case 0
  then show ?case using assms by simp
next
  case (Suc n)
  then show ?case
    by (auto simp: HandleTransactionFailure_def Let_def kDisconnectFailureThreshold_def)
qed

lemma repeated_timeout:
  assumes "send_fail_streak s = 0" and "timeout_fail_streak s = 0" and "\<not> disconnected s"
  shows "send_fail_streak ((HandleTransactionFailure t Fail_Timeout ^^ n) s) = 0 \<and>
    timeout_fail_streak ((HandleTransactionFailure t Fail_Timeout ^^ n) s) = int n \<and>
    (disconnected ((HandleTransactionFailure t Fail_Timeout ^^ n) s) \<longleftrightarrow> 7 \<le> n)"
proof (induction n)
  case 0
  then show ?case using assms by simp
next
  case (Suc n)
  then show ?case
    by (auto simp: HandleTransactionFailure_def Let_def kDisconnectFailureThreshold_def)
qed

lemma repeated_protocol:
  assumes "send_fail_streak s = 0" and "timeout_fail_streak s = 0" and "\<not> disconnected s"
  shows "send_fail_streak ((HandleTransactionFailure t Fail_Protocol ^^ n) s) = int n \<and>
    timeout_fail_streak ((HandleTransactionFailure t Fail_Protocol ^^ n) s) = int n \<and>
    (disconnected ((HandleTransactionFailure t Fail_Protocol ^^ n) s) \<longleftrightarrow> 4 \<le> n)"
proof (induction n)
  case 0
  then show ?case using assms by simp
next
  case (Suc n)
  then show ?case
    by (auto simp: HandleTransactionFailure_def Let_def kDisconnectFailureThreshold_def)
qed

text \<open>C24. In a run of \<open>n\<close> failed exchanges of one kind, a coordinator whose
  counters were cleared counts as disconnected from the 5th send failure, the 7th timeout or the 4th
  protocol failure on, not before, and from then on a reset is required.\<close>

theorem disconnect_thresholds:
  assumes "send_fail_streak s = 0" and "timeout_fail_streak s = 0" and "\<not> disconnected s"
    and "mode_ok s"
  shows "(disconnected ((after_exchange t SendFailure ^^ n) s) \<longleftrightarrow> 5 \<le> n) \<and>
    (disconnected ((after_exchange t TimeoutFailure ^^ n) s) \<longleftrightarrow> 7 \<le> n) \<and>
    (disconnected ((after_exchange t ProtocolFailure ^^ n) s) \<longleftrightarrow> 4 \<le> n) \<and>
    mode_ok ((after_exchange t res ^^ n) s)"
proof -
  have "after_exchange t SendFailure = HandleTransactionFailure t Fail_Send"
    "after_exchange t TimeoutFailure = HandleTransactionFailure t Fail_Timeout"
    "after_exchange t ProtocolFailure = HandleTransactionFailure t Fail_Protocol"
    by (simp_all add: after_exchange_def fun_eq_iff)
  moreover have "mode_ok ((after_exchange t res ^^ n) s)"
    using assms(4) by (induction n) (simp_all add: mode_ok_after_exchange)
  ultimately show ?thesis
    using repeated_send [OF assms(1-3), of n t] repeated_timeout [OF assms(1-3), of n t]
      repeated_protocol [OF assms(1-3), of n t] by simp
qed

lemma session_up_fields:
  "send_fail_streak (session_up s) = 0" "timeout_fail_streak (session_up s) = 0"
  "\<not> disconnected (session_up s)" "mode_ok (session_up s)"
  by (simp_all add: session_up_def mode_ok_def)

theorem disconnect_thresholds_witness:
  "disconnected ((after_exchange 0 TimeoutFailure ^^ 7) (session_up start_coordinator)) \<and>
   \<not> disconnected ((after_exchange 0 TimeoutFailure ^^ 6) (session_up start_coordinator))"
  using disconnect_thresholds [of "session_up start_coordinator" 7 0 Ex_Success]
    disconnect_thresholds [of "session_up start_coordinator" 6 0 Ex_Success]
    session_up_fields [of start_coordinator] by simp

definition backoff_ok :: "coordinator \<Rightarrow> bool" where
  "backoff_ok s \<longleftrightarrow> 100000 \<le> unat (disconnect_backoff_us s) \<and> unat (disconnect_backoff_us s) \<le> 1000000"

lemma backoff_ok_view: "fail_view s' = fail_view s \<Longrightarrow> backoff_ok s' = backoff_ok s"
  by (simp add: backoff_ok_def fail_view_def)

lemma backoff_doubled:
  assumes "backoff_ok s"
  shows "unat (disconnect_backoff_us (retry_failed t s)) = min (2 * unat (disconnect_backoff_us s)) 1000000"
proof -
  have "unat (disconnect_backoff_us s * 2) = 2 * unat (disconnect_backoff_us s)"
    using assms by (simp add: backoff_ok_def unat_word_ariths)
  then show ?thesis
    by (simp add: retry_failed_def Let_def kMaxDisconnectBackoffUs_def word_less_nat_alt)
qed

lemma backoff_ok_failure: "backoff_ok s \<Longrightarrow> backoff_ok (HandleTransactionFailure t ft s)"
  by (simp add: backoff_ok_def HandleTransactionFailure_def Let_def split: FailureType.split)

lemma backoff_ok_initial [simp]: "backoff_ok (s\<lparr>disconnect_backoff_us := kInitialDisconnectBackoffUs\<rparr>)"
  by (simp add: backoff_ok_def kInitialDisconnectBackoffUs_def)

text \<open>C25. Between a disconnect and the next session the coordinator stays off the air
  until the retry time, then tries one reset; each failure schedules the next try after the current
  backoff and doubles the backoff, which stays between 100 ms and 1 s.\<close>

theorem retry_backoff:
  assumes "backoff_ok s" and "Run_step env s = Some s'"
  shows "backoff_ok s' \<and>
    (disconnected s \<longrightarrow>
      (if loop_now env < next_retry_time_us s then s' = s\<lparr>dev_ops := dev_ops s @ [Sleep 1000]\<rparr>
       else disconnected s' \<longrightarrow>
         next_retry_time_us s' = fail_now env + disconnect_backoff_us s \<and>
         unat (disconnect_backoff_us s') = min (2 * unat (disconnect_backoff_us s)) 1000000))"
  using assms(2)
proof (cases rule: Run_step_cases)
  case waits
  then have "backoff_ok s'"
    using assms(1) backoff_ok_view [of s' s] by simp
  with waits show ?thesis by (simp add: dev_def)
next
  case (retried u)
  then have u: "backoff_ok u" "disconnect_backoff_us u = disconnect_backoff_us s"
    using assms(1) backoff_ok_view [of u s] by (simp_all add: fail_view_def)
  have "backoff_ok s'"
    using backoff_doubled [OF u(1), of "fail_now env"] u(1) retried(6) by (simp add: backoff_ok_def)
  moreover have "next_retry_time_us s' = fail_now env + disconnect_backoff_us s"
    using retried(6) u(2) by (simp add: retry_failed_def Let_def)
  ultimately show ?thesis
    using backoff_doubled [OF u(1), of "fail_now env"] u(2) retried(2,6) by simp
next
  case (connected u)
  then show ?thesis
    by (simp add: session_up_def backoff_ok_def kInitialDisconnectBackoffUs_def)
next
  case (reset_failed u)
  then show ?thesis
    using assms(1) backoff_ok_view [of u s] backoff_ok_failure by simp
next
  case (exchanged u res)
  then have u: "backoff_ok u"
    using assms(1) backoff_ok_view [of u s] by simp
  then have "backoff_ok (after_exchange (fail_now env) res u)"
    using backoff_ok_failure [OF u]
    by (cases res) (simp_all add: after_exchange_def backoff_ok_def kInitialDisconnectBackoffUs_def)
  then show ?thesis
    using exchanged backoff_ok_view [OF fail_view_fields(3)] by simp
qed

theorem retry_backoff_witness:
  "\<exists>s'. Run_step deaf_env start_coordinator = Some s' \<and> backoff_ok s'"
proof -
  have "backoff_ok start_coordinator"
    by (simp add: backoff_ok_def fields_start)
  then show ?thesis
    using deaf_step retry_backoff by blast
qed

lemma Run_clean:
  assumes "Run_step env s = Some s'"
  shows "clean_use s s'"
  using assms
proof (cases rule: Run_step_cases)
  case waits
  then show ?thesis by simp
next
  case (retried u)
  then show ?thesis by (simp add: clean_use_def)
next
  case (connected u)
  then show ?thesis by (simp add: clean_use_def)
next
  case (reset_failed u)
  then show ?thesis by (simp add: clean_use_def)
next
  case (exchanged u res)
  then show ?thesis by (simp add: clean_use_def)
qed

text \<open>C23. In a whole pass of \<open>Run\<close> every write to the radio happens after
  \<open>stopListening\<close> and every read after \<open>startListening\<close>, in whatever mode the pass found the radio.\<close>

theorem Run_half_duplex:
  assumes "Run_step env s = Some s'"
  shows "\<exists>ops. dev_ops s' = dev_ops s @ ops \<and> (\<forall>m. disciplined m ops)"
  using Run_clean [OF assms] by (auto simp: clean_use_def)

theorem Run_half_duplex_witness:
  "\<exists>s' ops. Run_step deaf_env start_coordinator = Some s' \<and>
     dev_ops s' = dev_ops start_coordinator @ ops \<and> disciplined None ops"
  using deaf_step Run_half_duplex by blast

text \<open>C39. A pass of a coordinator that does not count as disconnected begins with
  one sleep: 20 ms when it is idle and the peer announced nothing, 1 ms otherwise. The configured
  poll interval and the doubled interval after failures have no influence on it.\<close>

theorem pass_sleeps_first:
  assumes "Run_step env (s\<lparr>poll_interval_us := x, current_poll_interval_us := y\<rparr>) = Some s'"
    and "\<not> disconnected s"
  shows "\<exists>ops. dev_ops s' =
    dev_ops s @ Sleep (if cstate s = Idle \<and> \<not> peer_has_pending s then 20000 else 1000) # ops"
proof -
  let ?s = "s\<lparr>poll_interval_us := x, current_poll_interval_us := y\<rparr>"
  define v where "v = dev (Sleep (current_poll_interval_us (choose_poll_interval ?s)))
    (choose_poll_interval ?s)"
  have v: "dev_ops v = dev_ops s @
      [Sleep (if cstate s = Idle \<and> \<not> peer_has_pending s then 20000 else 1000)]"
    by (simp add: v_def choose_poll_interval_def dev_def kIdlePollIntervalUs_def
        kActivePollIntervalUs_def)
  have "\<exists>u :: coordinator. clean_use v u \<and> dev_ops s' = dev_ops u"
  proof (cases "connection_reset_required s")
    case True
    with assms obtain ok u where
      cr: "ConnectionReset (run_exchange env) v = Some (ok, u)" and
      s': "s' = (if \<not> ok then HandleTransactionFailure (fail_now env) Fail_Protocol
                 (u\<lparr>reset_fail_log_counter := reset_fail_log_counter u + 1\<rparr>) else session_up u)"
      by (auto simp: Run_step_def v_def Let_def choose_poll_interval_def dev_def
          split: option.splits)
    have "clean_use v u" "dev_ops s' = dev_ops u"
      using reset_control [OF cr] s' by simp_all
    then show ?thesis by blast
  next
    case False
    with assms obtain res u where
      ex: "PerformExchange (run_exchange env) v = Some (res, u)" and
      s': "s' = coordinator_stats (stat_now env) (after_exchange (fail_now env) res u)"
      by (auto simp: Run_step_def v_def Let_def choose_poll_interval_def dev_def
          split: option.splits)
    have "clean_use v u" "dev_ops s' = dev_ops u"
      using exchange_control [OF ex] s' by simp_all
    then show ?thesis by blast
  qed
  with v show ?thesis
    by (auto simp: clean_use_def)
qed

theorem pass_sleeps_first_witness:
  "\<exists>s' ops. Run_step deaf_env start_coordinator = Some s' \<and>
     dev_ops s' = dev_ops start_coordinator @ Sleep 1000 # ops"
proof -
  obtain s' where s': "Run_step deaf_env start_coordinator = Some s'"
    using deaf_step by blast
  moreover have "start_coordinator\<lparr>poll_interval_us := poll_interval_us start_coordinator,
      current_poll_interval_us := current_poll_interval_us start_coordinator\<rparr> = start_coordinator"
    by simp
  ultimately show ?thesis
    using pass_sleeps_first [where env = deaf_env and s = start_coordinator and s' = s'
        and x = "poll_interval_us start_coordinator"
        and y = "current_poll_interval_us start_coordinator"] fields_start
    by simp
qed

text \<open>C21. An attempt to reset the session, whatever comes back, writes
  exactly one packet, the RESET frame; it starts both directions anew (next number 1, nothing in
  flight, nothing accepted, no partial packet) and keeps the queued IP packets and what was written
  to the tunnel. It reports success only if a RESET frame was read from the radio.\<close>

theorem ConnectionReset_contract:
  assumes "ConnectionReset env s = Some (ok, s')"
  shows "written (dev_ops s') = written (dev_ops s) @ [reset_packet] \<and>
    next_tx_seq s' = 1 \<and> \<not> tx_in_flight s' \<and> last_rx_seq s' = None \<and> frame_buffer s' = [] \<and>
    read_buffer s' = read_buffer s \<and> tun_out s' = tun_out s \<and> \<not> peer_has_pending s' \<and>
    (ok \<longrightarrow> (\<exists>rx. DecodeMacFrame (read_into (rx_fifo (x_recv env)) (replicate 32 0)) = Some rx \<and>
       ftype rx = Reset))"
  using ConnectionReset_cases [OF assms]
  by (simp add: view_defs clear_session_def control_def)

theorem ConnectionReset_contract_witness:
  "\<exists>ok s'. ConnectionReset (run_exchange deaf_env) start_coordinator = Some (ok, s') \<and>
     written (dev_ops s') = [reset_packet]"
proof -
  have "\<exists>ok s'. ConnectionReset (run_exchange deaf_env) start_coordinator = Some (ok, s')"
    by (auto simp: ConnectionReset_def encode_reset_frame deaf_env_def Send_def reset_packet_def Let_def)
  moreover have "written (dev_ops start_coordinator) = []"
    by (simp add: start_coordinator_def PrimaryRadioInterface_def Let_def dev_def link.defs
        RadioInterface_init_def)
  ultimately show ?thesis
    using ConnectionReset_contract by fastforce
qed

text \<open>\<open>ChooseCoordinatorTxFrame\<close> looks at the queue and builds the frame under
  two separate locks. Whatever the tunnel thread queues in between, the frame is the one chosen from
  the queue as it was, and the state is as if the packets had been queued afterwards.\<close>

lemma coordinator_choose_at:
  "ChooseCoordinatorTxFrame_at queued s =
     (case ChooseCoordinatorTxFrame s of (ok, tx, s') \<Rightarrow> (ok, tx, fold tunnel_push queued s'))"
proof (cases "has_data s")
  case True
  have build: "BuildNextDataFrameLocked (s\<lparr>read_buffer := read_buffer s @ ps\<rparr>)
      = (True, data_frame (fold tunnel_push ps (in_flight s)),
         (in_flight s)\<lparr>read_buffer := read_buffer s @ ps\<rparr>)" for ps
    using build_push [OF True, of ps] by (simp add: fold_push frame_simps)
  from build [of "[]"] build [of queued] True show ?thesis
    by (cases "cstate s")
      (simp_all add: ChooseCoordinatorTxFrame_def ChooseCoordinatorTxFrame_at_def Let_def
        has_data_def fold_push choose_grant_def data_frame_queue frame_simps)
next
  case False
  then show ?thesis
    by (cases "cstate s")
      (simp_all add: ChooseCoordinatorTxFrame_def ChooseCoordinatorTxFrame_at_def Let_def
        has_data_def fold_push choose_grant_def)
qed

text \<open>C16. What a response does, on every branch: its acknowledgement is
  always committed; it is refused exactly if it is an out-of-order DATA frame or a frame a peer does
  not answer with, and then the state machine stays where it is; otherwise the pending flag is
  taken over and decides, with the type, between \<open>Idle\<close>, \<open>IssueGrant\<close> and \<open>ActiveRx\<close>.\<close>

theorem ApplyPeerResponse_outcome:
  "case ApplyPeerResponse rx s of (ok, s') \<Rightarrow>
     tx_view s' = tx_view (CommitAckLocked (ack rx) s) \<and>
     (ok \<longleftrightarrow> ftype rx \<in> {Ack, Pending} \<or>
        ftype rx = Data \<and> fst (ConsumeDataFrameLocked rx s)) \<and>
     (\<not> ok \<longrightarrow> cstate s' = cstate s) \<and>
     (ok \<longrightarrow> (peer_has_pending s' \<longleftrightarrow> pending rx \<noteq> 0) \<and>
        cstate s' = (if ftype rx \<noteq> Pending \<and> pending rx = 0 then Idle
                     else if ftype rx = Data then ActiveRx else IssueGrant))"
proof -
  have "fst (ConsumeDataFrameLocked rx (CommitAckLocked (ack rx) s)) = fst (ConsumeDataFrameLocked rx s)"
    using consume_cong(1) [OF commit_rx_view] .
  moreover have "cstate (link_after rx s) = cstate s"
    using control_after [of rx s] by (simp add: control_def)
  ultimately have "case ApplyPeerResponse rx s of (ok, s') \<Rightarrow>
     (ok \<longleftrightarrow> ftype rx \<in> {Ack, Pending} \<or>
        ftype rx = Data \<and> fst (ConsumeDataFrameLocked rx s)) \<and>
     (\<not> ok \<longrightarrow> cstate s' = cstate s) \<and>
     (ok \<longrightarrow> (peer_has_pending s' \<longleftrightarrow> pending rx \<noteq> 0) \<and>
        cstate s' = (if ftype rx \<noteq> Pending \<and> pending rx = 0 then Idle
                     else if ftype rx = Data then ActiveRx else IssueGrant))"
    by (cases "ftype rx"; simp add: apply_eq Let_def)
  moreover have "tx_view (snd (ApplyPeerResponse rx s)) = tx_view (CommitAckLocked (ack rx) s)"
    using apply_response_views(1) [of rx s] by (simp add: link_after_def)
  ultimately show ?thesis
    by (simp add: split_beta)
qed

text \<open>An ACK that announces data makes the coordinator issue a GRANT.\<close>

theorem ApplyPeerResponse_outcome_witness:
  "case ApplyPeerResponse (empty_frame\<lparr>ftype := Ack, pending := 1\<rparr>) start_coordinator of (ok, s') \<Rightarrow>
     ok \<and> peer_has_pending s' \<and> cstate s' = IssueGrant"
  using ApplyPeerResponse_outcome [of "empty_frame\<lparr>ftype := Ack, pending := 1\<rparr>" start_coordinator]
  by (simp split: prod.splits)

end
