(* ===== verification/Session_Run.thy ===== *)
theory Session_Run
  imports Delivery Coordinator_Run
begin

text \<open>
  Runs of the system on a device that works and a channel that loses nothing: such an exchange can
  always be made, is a sequence of system steps, and makes progress, so a session delivers everything
  queued at both ends within a bounded number of exchanges. The runs also show that the states the
  properties of \<open>Delivery\<close> speak about exist. What a coordinator makes of a response in a session, a
  RESET reply left over from the handshake included, is \<open>session_response_outcome\<close>.
\<close>

section \<open>Passes on a device that works\<close>

text \<open>The clock is past every retry time.\<close>

definition good_run :: "bytes \<Rightarrow> run_env" where
  "good_run fifo = \<lparr>loop_now = - 1, run_exchange = \<lparr>x_send = good_send, x_recv = good_recv fifo\<rparr>,
     fail_now = 0, stat_now = 0\<rparr>"

definition good_peer :: "bytes \<Rightarrow> peer_env" where
  "good_peer fifo = \<lparr>pe_recv = good_recv fifo, pe_send = good_send, pe_stat_now = 0\<rparr>"

lemma good_fifo [simp]:
  "rx_fifo (good_recv fifo) = fifo"
  "rx_fifo (x_recv (run_exchange (good_run fifo))) = fifo" "rx_fifo (pe_recv (good_peer fifo)) = fifo"
  "pe_recv (good_peer fifo) = good_recv fifo" "pe_send (good_peer fifo) = good_send"
  "run_exchange (good_run fifo) = \<lparr>x_send = good_send, x_recv = good_recv fifo\<rparr>"
  by (simp_all add: good_run_def good_peer_def good_recv_def)

text \<open>A coordinator's request is always sent.\<close>

lemma good_request:
  assumes wf: "link_wf s" and ok: "mode_ok s" "\<not> connection_reset_required s"
  shows "\<exists>f s'. coordinator_request (good_run fifo) s = Some (Some f, s')"
proof -
  define u where "u = dev (Sleep (current_poll_interval_us (choose_poll_interval s)))
    (choose_poll_interval s)"
  have v: "tx_view u = tx_view s" "rx_view u = rx_view s" "control u = control s"
    by (simp_all add: u_def)
  have cu: "link_wf u" "cstate u \<noteq> ResetSync"
    using wf ok v link_wf_view [OF v(1,2)] by (auto simp: mode_ok_def control_def)
  obtain f t where ch: "ChooseCoordinatorTxFrame u = (True, f, t)" "frame_wf f" "request_ok f"
      "sends f u t" "dev_ops t = dev_ops u" "control t = control u"
    by (rule choose_connected [OF cu(1,2)])
  obtain p where p: "EncodeMacFrame f = Some p"
    using encode_decode_wf [OF ch(2)] by blast
  then show ?thesis
    using ch(1) EncodeMacFrame_length [OF p]
    by (simp add: coordinator_request_def Let_def u_def [symmetric] exchange_request_def Send_good)
qed

text \<open>A peer always completes its pass, and so does a coordinator.\<close>

lemma good_peer_step: "\<exists>r. Peer_step (good_peer fifo) s = Some r"
proof -
  define u where "u = dev ReadRadio (dev StartListening s)"
  have rcv: "Receive (good_recv fifo) (replicate 32 0) 0 s
      = Some (Success, read_into fifo (replicate 32 0), u)"
    by (simp add: Receive_good u_def)
  obtain rx where rx: "DecodeMacFrame (read_into fifo (replicate 32 0)) = Some rx"
    by (simp add: DecodeMacFrame_eq)
  have "\<exists>r. answer_request good_send t rx u = Some r" for t
  proof (cases "ftype rx = Reset")
    case True
    then show ?thesis
      by (simp add: answer_request_def Let_def HandleReset_def peer_reset_encode Send_good
          reset_packet_def)
  next
    case False
    obtain res w where prep: "prepare_response rx (RecordRx rx u) = (res, w)"
      by fastforce
    have "length p \<le> 32" if "res = Some (tx, p)" for tx p
      using prep that EncodeMacFrame_length
      by (auto simp: prepare_response_def split: prod.splits if_splits option.splits)
    with False prep show ?thesis
      by (cases res) (auto simp: answer_request_def Let_def Send_good)
  qed
  with rcv rx show ?thesis
    by (simp add: Peer_step_def)
qed

lemma good_response: "\<exists>res t. coordinator_response (good_run fifo) f s = Some (res, t) \<and> res \<noteq> TimeoutFailure"
proof -
  have rcv: "Receive (good_recv fifo) (replicate 32 0) kResponseTimeoutUs s
      = Some (Success, read_into fifo (replicate 32 0), dev ReadRadio (dev StartListening s))"
    by (simp add: Receive_good)
  obtain rx where rx: "DecodeMacFrame (read_into fifo (replicate 32 0)) = Some rx"
    by (simp add: DecodeMacFrame_eq)
  obtain res t where con: "conclude_exchange f rx (dev ReadRadio (dev StartListening s)) = (res, t)"
    by fastforce
  have "res \<noteq> TimeoutFailure"
    using conclude_eq [of f rx "dev ReadRadio (dev StartListening s)"] con by (auto split: if_splits)
  with rcv rx con show ?thesis
    by (simp add: coordinator_response_def exchange_response_def)
qed

lemma success_keeps_session:
  assumes "coordinator_response env f s = Some (res, t)" and "res = Ex_Success"
  shows "connection_reset_required t = connection_reset_required s"
proof -
  from assms obtain u where u: "exchange_response (x_recv (run_exchange env)) f s = Some (Ex_Success, u)"
    and t: "t = finish_pass env Ex_Success u"
    by (auto simp: coordinator_response_def split: option.splits)
  from response_control [OF u] show ?thesis
    by (simp add: t finish_pass_def stats_control after_exchange_def fail_view_def)
qed

lemma finish_pass_streaks:
  "send_fail_streak (finish_pass env Ex_Success s) = 0"
  "timeout_fail_streak (finish_pass env Ex_Success s) = 0"
  "send_fail_streak (finish_pass env ProtocolFailure s) = send_fail_streak s + 1"
  "timeout_fail_streak (finish_pass env ProtocolFailure s) = timeout_fail_streak s + 1"
  by (simp_all add: finish_pass_def after_exchange_def coordinator_stats_def
      HandleTransactionFailure_def Let_def)

text \<open>C8. The outcome of every response that a coordinator takes in a session, late or
  repeated as it may be. A response the peer sent in the session is accepted, the failure counters are
  cleared and the session goes on. The only response that is refused is a RESET reply left over from
  the handshake: it counts as a protocol failure in both failure counters, but leaves the queue, the
  fragment in flight, the sequence numbers, the reassembly buffer and the tunnel as they were.\<close>

theorem session_response_outcome:
  assumes "reachable \<sigma>" and "awaiting \<sigma> = Some tx" and "to_coord \<sigma> = p # ps"
    and "rx_fifo (x_recv (run_exchange env)) = p"
    and "coordinator_response env tx (co \<sigma>) = Some (result, s)" "result \<noteq> TimeoutFailure"
  shows "if p = reset_packet
    then result = ProtocolFailure \<and> send_fail_streak s = send_fail_streak (co \<sigma>) + 1 \<and>
      timeout_fail_streak s = timeout_fail_streak (co \<sigma>) + 1 \<and>
      tx_view s = tx_view (co \<sigma>) \<and> rx_view s = rx_view (co \<sigma>)
    else result = Ex_Success \<and> \<not> connection_reset_required s \<and> \<not> disconnected s \<and>
      send_fail_streak s = 0 \<and> timeout_fail_streak s = 0 \<and>
      (cstate s = Idle \<longleftrightarrow> \<not> peer_has_pending s)"
proof -
  note inv = reachable_inv [OF assms(1)]
  then have wf: "link_wf (co \<sigma>)" and up: "\<not> connection_reset_required (co \<sigma>)"
    using assms(2) by (auto simp: sys_inv_def)
  obtain f where f: "tx_view s = tx_view (link_after f (co \<sigma>))"
      "rx_view s = rx_view (link_after f (co \<sigma>))" "mode_ok s"
    and k: "if p = reset_packet then result = ProtocolFailure \<and> f = reset_frame \<and> \<not> peer_has_pending s
      else result = Ex_Success \<and> (cstate s = Idle \<longleftrightarrow> \<not> peer_has_pending s) \<and>
        (cstate s = Idle \<longleftrightarrow> ftype f = Ack)"
    by (rule co_response_session [OF inv assms(2-6)])
  from assms(5) obtain t where
    t: "exchange_response (x_recv (run_exchange env)) tx (co \<sigma>) = Some (result, t)"
      "s = finish_pass env result t"
    by (auto simp: coordinator_response_def split: option.splits)
  have ft: "fail_view t = fail_view (co \<sigma>)"
    using response_control [OF t(1)] by blast
  show ?thesis
  proof (cases "p = reset_packet")
    case True
    with k f link_after_reset [OF wf] have "result = ProtocolFailure" "tx_view s = tx_view (co \<sigma>)"
        "rx_view s = rx_view (co \<sigma>)"
      by simp_all
    with True t(2) ft show ?thesis
      by (simp add: finish_pass_streaks fail_view_def)
  next
    case False
    with k have r: "result = Ex_Success" "cstate s = Idle \<longleftrightarrow> \<not> peer_has_pending s"
      by simp_all
    have "\<not> connection_reset_required s"
      using success_keeps_session [OF assms(5) r(1)] up by simp
    moreover from this have "\<not> disconnected s"
      using f(3) by (auto simp: mode_ok_def)
    ultimately show ?thesis
      using False r t(2) by (simp add: finish_pass_streaks)
  qed
qed

section \<open>Establishing a session\<close>

lemma good_reset_exchange:
  assumes "connection_reset_required u"
  shows "\<exists>v. ConnectionReset \<lparr>x_send = good_send, x_recv = good_recv reset_packet\<rparr> u = Some (True, v)"
proof -
  have "read_into reset_packet (replicate 32 0) = reset_packet"
    by (simp add: read_into_full reset_packet_def)
  then show ?thesis
    using assms decode_reset_packet
    by (simp add: ConnectionReset_def encode_reset_frame Let_def Send_good Receive_good)
      (simp add: reset_packet_def Send_good Receive_good reset_frame_def)
qed

lemma good_reset:
  assumes "connection_reset_required s"
  shows "\<exists>s'. Run_step (good_run reset_packet) s = Some s' \<and> \<not> connection_reset_required s'"
proof (cases "disconnected s")
  case True
  obtain v where "ConnectionReset \<lparr>x_send = good_send, x_recv = good_recv reset_packet\<rparr> s = Some (True, v)"
    using good_reset_exchange [OF assms] ..
  with True have "Run_step (good_run reset_packet) s = Some (session_up v)"
    by (simp add: Run_step_def) (simp add: good_run_def word_not_simps)
  then show ?thesis
    by (simp add: session_up_def)
next
  case False
  define u where "u = dev (Sleep (current_poll_interval_us (choose_poll_interval s)))
    (choose_poll_interval s)"
  have u: "connection_reset_required u"
    using assms by (simp add: u_def dev_def choose_poll_interval_def)
  obtain v where "ConnectionReset \<lparr>x_send = good_send, x_recv = good_recv reset_packet\<rparr> u = Some (True, v)"
    using good_reset_exchange [OF u] ..
  then have "Run_step (good_run reset_packet) s = Some (session_up v)"
    using False u by (simp add: Run_step_def Let_def u_def [symmetric])
  then show ?thesis
    by (simp add: session_up_def)
qed

definition quiet :: "system \<Rightarrow> bool" where
  "quiet \<sigma> \<longleftrightarrow> \<not> connection_reset_required (co \<sigma>) \<and> awaiting \<sigma> = None \<and> to_peer \<sigma> = [] \<and>
     to_coord \<sigma> = []"

text \<open>
  Whenever a session is required and nothing is on the air, it can be established, and any RESETs may
  be left in the air.
\<close>

lemma reset_leaves:
  assumes inv: "sys_inv \<sigma>" and req: "connection_reset_required (co \<sigma>)"
    and air: "to_peer \<sigma> = []" "to_coord \<sigma> = []" and left: "only_resets (xs @ ys)"
  shows "\<exists>\<sigma>'. sys_step \<sigma> \<sigma>' \<and> \<not> connection_reset_required (co \<sigma>') \<and> awaiting \<sigma>' = None \<and>
    to_peer \<sigma>' = xs \<and> to_coord \<sigma>' = ys \<and> cstate (co \<sigma>') = Idle \<and>
    tx_view (co \<sigma>') = tx_view (clear_session (co \<sigma>)) \<and>
    tx_view (pe \<sigma>') = tx_view (clear_session (pe \<sigma>)) \<and> pe_pc \<sigma>' = pe_pc \<sigma>"
proof -
  have m: "mode_ok (co \<sigma>)" "awaiting \<sigma> = None"
    using inv req by (auto simp: sys_inv_def)
  obtain s where s: "Run_step (good_run reset_packet) (co \<sigma>) = Some s" "\<not> connection_reset_required s"
    using good_reset [OF req] by blast
  have c: "tx_view s = tx_view (clear_session (co \<sigma>))" "sent_between (co \<sigma>) s = [reset_packet]"
      "cstate s = Idle"
    using s(1) req m(1) by (cases rule: reset_pass_cases; use s(2) in simp)+
  obtain r where r: "Peer_step (good_peer reset_packet) (pe \<sigma>) = Some r"
    using good_peer_step by blast
  have ready: "WaitForRxReady (pe_recv (good_peer reset_packet)) (irq_line (pe \<sigma>) \<noteq> None) 0 = Some Success"
    by (simp add: wait_good)
  have pe: "tx_view r = tx_view (clear_session (pe \<sigma>))" "sent_between (pe \<sigma>) r = [reset_packet]"
    by (rule peer_reset_pass(1,3) [OF r _ ready], simp)+
  have "only_resets (to_peer \<sigma> @ to_coord \<sigma>)"
    by (simp add: air only_resets_def)
  from sys_step.reset_succeeds [OF req this s(1,2) _ ready r _ left] c(2) pe(2) have
    "sys_step \<sigma> (\<sigma>\<lparr>co := s, pe := r, to_peer := xs, to_coord := ys,
       co_hist := (read_buffer s, tun_out r), pe_hist := (read_buffer r, tun_out s)\<rparr>)"
    by simp
  then show ?thesis
    using c(1,3) s(2) m(2) pe(1) by fastforce
qed

lemma reset_possible:
  assumes inv: "sys_inv \<sigma>" and req: "connection_reset_required (co \<sigma>)"
    and air: "to_peer \<sigma> = []" "to_coord \<sigma> = []"
  shows "\<exists>\<sigma>'. sys_step \<sigma> \<sigma>' \<and> quiet \<sigma>' \<and> cstate (co \<sigma>') = Idle \<and>
    tx_view (co \<sigma>') = tx_view (clear_session (co \<sigma>)) \<and>
    tx_view (pe \<sigma>') = tx_view (clear_session (pe \<sigma>)) \<and> pe_pc \<sigma>' = pe_pc \<sigma>"
proof -
  have "only_resets ([] @ [])"
    by (simp add: only_resets_def)
  from reset_leaves [OF assms this] show ?thesis
    by (fastforce simp: quiet_def)
qed

text \<open>A session can be established, with a packet queued at the coordinator.\<close>

lemma established:
  assumes p: "IsValidIpPacket p" "length p \<le> 3200"
  shows "\<exists>\<sigma>. reachable \<sigma> \<and> quiet \<sigma> \<and> cstate (co \<sigma>) = Idle \<and> read_buffer (co \<sigma>) = [p] \<and>
    \<not> tx_in_flight (pe \<sigma>) \<and> running (pe \<sigma>) \<and> pe_pc \<sigma> = Tunnel_loop"
proof -
  obtain c0 p0 where n: "reachable (system_start c0 p0)" "fresh c0" "connection_reset_required c0"
      "fresh p0"
    by (rule reachable_start)
  define \<sigma>0 where "\<sigma>0 = system_start c0 p0"
  have r0: "reachable \<sigma>0"
    using n(1) by (simp add: \<sigma>0_def)
  have start: "running (co \<sigma>0)" "read_buffer (co \<sigma>0) = []" "co_pc \<sigma>0 = Tunnel_loop"
      "to_peer \<sigma>0 = []" "to_coord \<sigma>0 = []" "awaiting \<sigma>0 = None"
      "connection_reset_required (co \<sigma>0)" "running (pe \<sigma>0)" "pe_pc \<sigma>0 = Tunnel_loop"
    using n(2-4) by (simp_all add: \<sigma>0_def system_start_def fresh_def)
  have read: "TunnelThread_step None (co_pc \<sigma>0, co \<sigma>0) = (Tunnel_read, co \<sigma>0)"
    using start(1,3) by simp
  define \<rho> where "\<rho> = \<sigma>0\<lparr>co_pc := Tunnel_read\<rparr>"
  have "sys_step \<sigma>0 \<rho>"
    using sys_step.co_tunnel [OF read] by (simp add: \<rho>_def queued_between_def)
  with r0 have r\<rho>: "reachable \<rho>"
    by (rule reachable.step)
  have "take kTunnelReadSize p = p"
    using p(2) by (simp add: kTunnelReadSize_def)
  then have "TunnelThread_step (Some p) (co_pc \<rho>, co \<rho>) = (Tunnel_throttle, tunnel_push p (co \<sigma>0))"
    using p(1) by (simp add: Let_def \<rho>_def)
  from sys_step.co_tunnel [OF this] r\<rho> obtain \<sigma>1 where
    s1: "reachable \<sigma>1" "co \<sigma>1 = tunnel_push p (co \<sigma>0)" "to_peer \<sigma>1 = []" "to_coord \<sigma>1 = []"
      "awaiting \<sigma>1 = None" "pe \<sigma>1 = pe \<sigma>0" "pe_pc \<sigma>1 = Tunnel_loop"
    using start(4-6,9) reachable.step unfolding \<rho>_def by fastforce
  have req: "connection_reset_required (co \<sigma>1)"
    using s1(2) start(7) by (simp add: tunnel_push_def)
  obtain \<sigma>2 where s2: "sys_step \<sigma>1 \<sigma>2" "quiet \<sigma>2" "cstate (co \<sigma>2) = Idle"
      "tx_view (co \<sigma>2) = tx_view (clear_session (co \<sigma>1))"
      "tx_view (pe \<sigma>2) = tx_view (clear_session (pe \<sigma>1))" "pe_pc \<sigma>2 = pe_pc \<sigma>1"
    using reset_possible [OF reachable_inv [OF s1(1)] req s1(3,4)] by blast
  moreover have "reachable \<sigma>2"
    using s1(1) s2(1) by (rule reachable.step)
  moreover have "read_buffer (co \<sigma>2) = [p]"
    using s2(4) s1(2) start(2) by (simp add: tx_view_def clear_session_def tunnel_push_def)
  moreover have "\<not> tx_in_flight (pe \<sigma>2)" "running (pe \<sigma>2)" "pe_pc \<sigma>2 = Tunnel_loop"
    using s2(5,6) s1(6,7) start(8) by (simp_all add: tx_view_def clear_session_def)
  ultimately show ?thesis
    by blast
qed

section \<open>One exchange\<close>

text \<open>
  A lossless exchange, from the system's operations on whatever device and clock: the coordinator's
  request is sent, the peer receives it and responds, and the coordinator receives the response.
\<close>

inductive lossless :: "system \<Rightarrow> system \<Rightarrow> bool" where
  "awaiting \<sigma> = None \<Longrightarrow> coordinator_request env (co \<sigma>) = Some (Some f, s) \<Longrightarrow>
   sent_between (co \<sigma>) s = [rx_fifo (pe_recv penv)] \<Longrightarrow>
   WaitForRxReady (pe_recv penv) (irq_line (pe \<sigma>) \<noteq> None) 0 = Some Success \<Longrightarrow>
   Peer_step penv (pe \<sigma>) = Some r \<Longrightarrow>
   sent_between (pe \<sigma>) r = [rx_fifo (x_recv (run_exchange env'))] \<Longrightarrow>
   coordinator_response env' f s = Some (res, t) \<Longrightarrow> res \<noteq> TimeoutFailure \<Longrightarrow>
     lossless \<sigma> (\<sigma>\<lparr>co := t, pe := r\<rparr>)"

text \<open>
  What it amounts to: the request \<open>f\<close>, the state \<open>u\<close> in which the peer has applied it, the response
  \<open>g\<close>, and the states on the way, which are states of the system.
\<close>

definition exchanged :: "system \<Rightarrow> system \<Rightarrow> MacFrame \<Rightarrow> system \<Rightarrow> MacFrame \<Rightarrow> peer \<Rightarrow> system \<Rightarrow> bool" where
  "exchanged \<sigma> \<sigma>1 f \<sigma>2 g u \<sigma>' \<longleftrightarrow>
     sys_step \<sigma> \<sigma>1 \<and> sys_step \<sigma>1 \<sigma>2 \<and> sys_step \<sigma>2 \<sigma>' \<and> quiet \<sigma>' \<and>
     (\<exists>p. to_peer \<sigma>1 = [p] \<and> DecodeMacFrame p = Some f) \<and> to_coord \<sigma>1 = [] \<and> pe \<sigma>1 = pe \<sigma> \<and>
     \<not> connection_reset_required (co \<sigma>1) \<and>
     sends f (co \<sigma>) (co \<sigma>1) \<and> (ftype f = Grant \<longrightarrow> arg f = 3) \<and>
     ftype f = request_type (cstate (co \<sigma>)) (has_data (co \<sigma>)) \<and>
     tx_view u = tx_view (link_after f (pe \<sigma>)) \<and> rx_view u = rx_view (link_after f (pe \<sigma>)) \<and>
     sends g u (pe \<sigma>2) \<and> ftype g = response_type f (has_data u) \<and> co \<sigma>2 = co \<sigma>1 \<and>
     awaiting \<sigma>2 = Some f \<and> to_peer \<sigma>2 = [] \<and>
     (\<exists>q. to_coord \<sigma>2 = [q] \<and> DecodeMacFrame q = Some g) \<and>
     pe \<sigma>' = pe \<sigma>2 \<and> tx_view (co \<sigma>') = tx_view (link_after g (co \<sigma>2)) \<and>
     rx_view (co \<sigma>') = rx_view (link_after g (co \<sigma>2)) \<and> (cstate (co \<sigma>') = Idle \<longleftrightarrow> ftype g = Ack) \<and>
     (\<forall>\<rho> \<in> {\<sigma>1, \<sigma>2, \<sigma>'}. co_hist \<rho> = co_hist \<sigma> \<and> pe_hist \<rho> = pe_hist \<sigma>)"

lemma lossless_exchanged:
  assumes r: "reachable \<sigma>" and q: "quiet \<sigma>" and ex: "lossless \<sigma> \<sigma>'"
  shows "\<exists>\<sigma>1 f \<sigma>2 g u. exchanged \<sigma> \<sigma>1 f \<sigma>2 g u \<sigma>'"
  using ex
proof cases
  case (1 env f s penv t env' res v)
  define p where "p = rx_fifo (pe_recv penv)"
  define y where "y = rx_fifo (x_recv (run_exchange env'))"
  have inv: "sys_inv \<sigma>" using r by (rule reachable_inv)
  from q have q0: "to_peer \<sigma> = []" "to_coord \<sigma> = []" "awaiting \<sigma> = None"
      "\<not> connection_reset_required (co \<sigma>)"
    by (simp_all add: quiet_def)
  with inv have wf: "link_wf (co \<sigma>)" "mode_ok (co \<sigma>)"
      "cstate (co \<sigma>) = Idle \<longrightarrow> \<not> peer_has_pending (co \<sigma>)"
    by (auto simp: sys_inv_def session_def)
  obtain f' p' where f: "sent_between (co \<sigma>) s = [p']" "DecodeMacFrame p' = Some f'" "request_ok f'"
      "sends f' (co \<sigma>) s" "mode_ok s" "peer_has_pending s = peer_has_pending (co \<sigma>)"
      "connection_reset_required s \<or> cstate s = cstate (co \<sigma>)"
      "Some f \<noteq> None \<longrightarrow> Some f = Some f' \<and> control s = control (co \<sigma>)"
      "(cstate (co \<sigma>) = Idle \<longrightarrow> \<not> peer_has_pending (co \<sigma>)) \<longrightarrow>
         ftype f' = request_type (cstate (co \<sigma>)) (has_data (co \<sigma>)) \<and> (ftype f' = Grant \<longrightarrow> arg f' = 3)"
    by (rule coordinator_request_cases [OF wf(1,2) q0(4) 1(3)])
  have pf: "p' = p" "f' = f"
    using f(1,8) 1(4) by (simp_all add: p_def)
  define \<sigma>1 where "\<sigma>1 = \<sigma>\<lparr>co := s, awaiting := Some f, to_peer := [p]\<rparr>"
  have st1: "sys_step \<sigma> \<sigma>1"
    using sys_step.co_request [OF q0(4,3) 1(3)] q0 f(1) pf by (simp add: \<sigma>1_def)
  have up1: "\<not> connection_reset_required (co \<sigma>1)"
    using f(8) q0(4) by (simp add: \<sigma>1_def control_def)
  have inv1: "sys_inv \<sigma>1"
    using reachable_inv [OF reachable.step [OF r st1]] .
  with up1 have ses1: "session \<sigma>1"
    by (simp add: sys_inv_def)
  have ch1: "to_peer \<sigma>1 = [p]" and pe1: "pe \<sigma>1 = pe \<sigma>"
    by (simp_all add: \<sigma>1_def)
  note peer = ch1 p_def [symmetric] 1(5,6) [folded pe1]
  have dec: "DecodeMacFrame p = Some f" "request_ok f"
    using f(2,3) pf by simp_all
  obtain u y' g where u: "tx_view u = tx_view (link_after f (pe \<sigma>1))"
      "rx_view u = rx_view (link_after f (pe \<sigma>1))" "sent_between (pe \<sigma>1) t = [y']"
      "DecodeMacFrame y' = Some g" "peer_frame_ok g" "sends g u t"
      "ftype g = response_type f (has_data u)"
    by (rule pe_receive_request [OF inv1 ses1 ch1 dec peer(2-4)])
  have yf: "y' = y"
    using u(3) 1(7) pe1 by (simp add: y_def)
  have y: "y \<noteq> reset_packet"
    using peer_frame_not_reset [OF u(4,5)] yf by simp
  define \<sigma>2 where "\<sigma>2 = \<sigma>1\<lparr>pe := t, to_peer := [], to_coord := [y]\<rparr>"
  have st2: "sys_step \<sigma>1 \<sigma>2"
    using sys_step.pe_receive [OF peer] u(3) yf q0 by (simp add: \<sigma>1_def \<sigma>2_def)
  have inv2: "sys_inv \<sigma>2"
    using reachable_inv [OF reachable.step [OF reachable.step [OF r st1] st2]] .
  have aw2: "awaiting \<sigma>2 = Some f" and ch2: "to_coord \<sigma>2 = [y]"
    and res: "coordinator_response env' f (co \<sigma>2) = Some (res, v)"
    using 1(8) by (simp_all add: \<sigma>1_def \<sigma>2_def)
  obtain g' where g: "DecodeMacFrame y = Some g'" "tx_view v = tx_view (link_after g' (co \<sigma>2))"
      "rx_view v = rx_view (link_after g' (co \<sigma>2))" "res = Ex_Success" "cstate v = Idle \<longleftrightarrow> ftype g' = Ack"
    by (rule co_response_session [OF inv2 aw2 ch2 y_def [symmetric] res 1(9)])
      (use y in \<open>metis (full_types)\<close>)
  have gg: "g' = g" using g(1) u(4) yf by simp
  have "\<sigma>' = \<sigma>2\<lparr>co := v, awaiting := None, to_coord := []\<rparr>"
    using 1(1) q0 by (cases \<sigma>) (simp add: \<sigma>1_def \<sigma>2_def)
  with sys_step.co_response [OF aw2 ch2 y_def [symmetric] res 1(9)] have st3: "sys_step \<sigma>2 \<sigma>'"
    by simp
  have "\<not> connection_reset_required v"
    using success_keeps_session [OF res g(4)] up1 by (simp add: \<sigma>2_def)
  then have "quiet \<sigma>'"
    using q0 1(1) by (simp add: quiet_def)
  then have "exchanged \<sigma> \<sigma>1 f \<sigma>2 g u \<sigma>'"
    unfolding exchanged_def using st1 st2 st3 up1 f(2,4,9) u(1,2,4,6,7) g(2,3,5) yf gg pf q0 wf(3) 1(1)
    by (simp add: \<sigma>1_def \<sigma>2_def)
  then show ?thesis by blast
qed

text \<open>It is always possible.\<close>

lemma lossless_possible:
  assumes r: "reachable \<sigma>" and q: "quiet \<sigma>"
  shows "\<exists>\<sigma>'. lossless \<sigma> \<sigma>'"
proof -
  have inv: "sys_inv \<sigma>" using r by (rule reachable_inv)
  with q have wf: "link_wf (co \<sigma>)" "mode_ok (co \<sigma>)" "\<not> connection_reset_required (co \<sigma>)"
    and aw: "awaiting \<sigma> = None"
    by (auto simp: sys_inv_def quiet_def)
  obtain f s where f: "coordinator_request (good_run []) (co \<sigma>) = Some (Some f, s)"
    using good_request [OF wf] by blast
  have "\<exists>p f'. sent_between (co \<sigma>) s = [p] \<and> DecodeMacFrame p = Some f' \<and> f' = f \<and>
      control s = control (co \<sigma>)"
    by (rule coordinator_request_cases [OF wf f]) simp
  then obtain p where p: "sent_between (co \<sigma>) s = [p]" "DecodeMacFrame p = Some f"
      "control s = control (co \<sigma>)" by blast
  define \<sigma>1 where "\<sigma>1 = \<sigma>\<lparr>co := s, awaiting := Some f, to_peer := [p]\<rparr>"
  have st1: "sys_step \<sigma> \<sigma>1"
    using sys_step.co_request [OF wf(3) aw f] p(1) q by (simp add: \<sigma>1_def quiet_def)
  have inv1: "sys_inv \<sigma>1"
    using reachable_inv [OF reachable.step [OF r st1]] .
  with p(3) wf(3) have ses1: "session \<sigma>1"
    by (simp add: sys_inv_def \<sigma>1_def control_def)
  have ch1: "to_peer \<sigma>1 = [p]" and pe1: "pe \<sigma>1 = pe \<sigma>"
    and ready: "WaitForRxReady (pe_recv (good_peer p)) (irq_line (pe \<sigma>1) \<noteq> None) 0 = Some Success"
    and fifo: "rx_fifo (pe_recv (good_peer p)) = p"
    by (simp_all add: \<sigma>1_def wait_good)
  obtain t where t: "Peer_step (good_peer p) (pe \<sigma>1) = Some t"
    using good_peer_step by blast
  have "\<exists>y. sent_between (pe \<sigma>1) t = [y]"
    by (rule pe_receive_session [OF inv1 ses1 ch1 fifo ready t]) blast
  then obtain y where y: "sent_between (pe \<sigma>1) t = [y]" ..
  obtain res v where "coordinator_response (good_run y) f s = Some (res, v)" "res \<noteq> TimeoutFailure"
    using good_response by blast
  from lossless.intros [OF aw f, of "good_peer p" t "good_run y" res v] this p(1) ready t y pe1 fifo
  show ?thesis by auto
qed

section \<open>States and steps the delivery properties speak about\<close>

text \<open>A minimal IPv4 packet.\<close>

definition ping :: bytes where
  "ping = [69, 0, 0, 20] @ replicate 16 0"

lemma ping: "IsValidIpPacket ping" "length ping \<le> 3200"
  by (simp_all add: ping_def valid_eq_spec ip_spec_def)

lemmas ping_queued = established [OF ping]

text \<open>The first exchange of a session in which the ping is queued.\<close>

lemma ping_exchanged:
  obtains \<sigma> \<sigma>1 f \<sigma>2 g u \<sigma>' where "reachable \<sigma>" and "quiet \<sigma>" and "read_buffer (co \<sigma>) = [ping]"
    and "exchanged \<sigma> \<sigma>1 f \<sigma>2 g u \<sigma>'"
  using ping_queued lossless_possible lossless_exchanged by metis

theorem session_refines_queues_witness:
  "\<exists>\<sigma> \<sigma>'. sys_step \<sigma> \<sigma>' \<and> read_buffer (co \<sigma>) = [ping] \<and>
     fifo_step (direction (co \<sigma>) (pe \<sigma>)) (direction (co \<sigma>') (pe \<sigma>')) \<and>
     fifo_step (direction (pe \<sigma>) (co \<sigma>)) (direction (pe \<sigma>') (co \<sigma>'))"
proof -
  obtain \<sigma> \<sigma>1 f \<sigma>2 g u \<sigma>' where
    e: "reachable \<sigma>" "quiet \<sigma>" "read_buffer (co \<sigma>) = [ping]" "exchanged \<sigma> \<sigma>1 f \<sigma>2 g u \<sigma>'"
    by (rule ping_exchanged)
  then have st: "sys_step \<sigma> \<sigma>1" "\<not> connection_reset_required (co \<sigma>)"
      "\<not> connection_reset_required (co \<sigma>1)"
    by (simp_all add: exchanged_def quiet_def)
  from session_refines_queues [OF e(1) st(1-3)] st e(3) show ?thesis
    by blast
qed

theorem session_delivers_in_order_witness:
  "\<exists>\<sigma> :: system. read_buffer (co \<sigma>) = [ping] \<and>
     (\<exists>done. fst (co_hist \<sigma>) = done @ waiting (co \<sigma>) (pe \<sigma>) \<and>
       tun_out (pe \<sigma>) = snd (co_hist \<sigma>) @ filter IsValidIpPacket done)"
proof -
  obtain \<sigma> where "reachable \<sigma>" "quiet \<sigma>" "read_buffer (co \<sigma>) = [ping]"
    using ping_queued by blast
  with session_delivers_in_order [of \<sigma>] show ?thesis
    by (auto simp: quiet_def)
qed

text \<open>A RESET reply that was repeated is refused, and the response of an exchange is accepted.\<close>

theorem session_response_outcome_witness:
  "(\<exists>(\<sigma> :: system) tx result s. awaiting \<sigma> = Some tx \<and> to_coord \<sigma> = [reset_packet] \<and>
     coordinator_response (good_run reset_packet) tx (co \<sigma>) = Some (result, s) \<and>
     result = ProtocolFailure \<and> rx_view s = rx_view (co \<sigma>)) \<and>
   (\<exists>(\<sigma> :: system) tx q result s. awaiting \<sigma> = Some tx \<and> to_coord \<sigma> = [q] \<and>
     coordinator_response (good_run q) tx (co \<sigma>) = Some (result, s) \<and> result = Ex_Success)"
proof
  obtain \<sigma> \<sigma>1 f \<sigma>2 g u \<sigma>' where
    e: "reachable \<sigma>" "quiet \<sigma>" "read_buffer (co \<sigma>) = [ping]" "exchanged \<sigma> \<sigma>1 f \<sigma>2 g u \<sigma>'"
    by (rule ping_exchanged)
  then obtain q where q: "awaiting \<sigma>2 = Some f" "to_coord \<sigma>2 = [q]" "DecodeMacFrame q = Some g"
    and g: "ftype g = response_type f (has_data u)"
    by (auto simp: exchanged_def)
  have r: "reachable \<sigma>2"
    using e by (auto simp: exchanged_def intro: reachable.step)
  obtain result s where res: "coordinator_response (good_run q) f (co \<sigma>2) = Some (result, s)"
      "result \<noteq> TimeoutFailure"
    using good_response by blast
  have "q \<noteq> reset_packet"
    using g q(3) by (auto simp: decode_reset_packet reset_frame_fields response_type_def split: if_splits)
  with session_response_outcome [OF r q(1,2) good_fifo(2) res] q res(1)
  show "\<exists>(\<sigma> :: system) tx q result s. awaiting \<sigma> = Some tx \<and> to_coord \<sigma> = [q] \<and>
     coordinator_response (good_run q) tx (co \<sigma>) = Some (result, s) \<and> result = Ex_Success"
    by auto
next
  obtain c p where n: "reachable (system_start c p)" "connection_reset_required c"
    by (rule reachable_start)
  let ?\<sigma> = "system_start c p"
  have "only_resets ([] @ [reset_packet])"
    by (simp add: only_resets_def)
  from reset_leaves [OF reachable_inv [OF n(1)] _ _ _ this] n(2) obtain \<rho> where
    \<rho>: "sys_step ?\<sigma> \<rho>" "\<not> connection_reset_required (co \<rho>)" "awaiting \<rho> = None"
      "to_coord \<rho> = [reset_packet]"
    by (auto simp: system_start_def)
  have r: "reachable \<rho>"
    using n(1) \<rho>(1) by (rule reachable.step)
  then obtain f s where f: "coordinator_request (good_run []) (co \<rho>) = Some (Some f, s)"
    using good_request [of "co \<rho>" "[]"] reachable_inv [OF r] \<rho>(2) by (auto simp: sys_inv_def)
  let ?\<tau> = "\<rho>\<lparr>co := s, awaiting := Some f, to_peer := to_peer \<rho> @ sent_between (co \<rho>) s\<rparr>"
  have t: "reachable ?\<tau>"
    using r sys_step.co_request [OF \<rho>(2,3) f] by (rule reachable.step)
  obtain result v where res: "coordinator_response (good_run reset_packet) f (co ?\<tau>) = Some (result, v)"
      "result \<noteq> TimeoutFailure"
    using good_response by blast
  have "awaiting ?\<tau> = Some f" "to_coord ?\<tau> = [reset_packet]"
    using \<rho>(4) by simp_all
  with session_response_outcome [OF t this good_fifo(2) res] res(1)
  show "\<exists>(\<sigma> :: system) tx result s. awaiting \<sigma> = Some tx \<and> to_coord \<sigma> = [reset_packet] \<and>
     coordinator_response (good_run reset_packet) tx (co \<sigma>) = Some (result, s) \<and>
     result = ProtocolFailure \<and> rx_view s = rx_view (co \<sigma>)"
    by (intro exI [of _ ?\<tau>]) auto
qed

theorem idle_coordinator_sends_data_witness:
  "\<exists>(\<sigma> :: system) tx s. read_buffer (co \<sigma>) = [ping] \<and>
     ChooseCoordinatorTxFrame (co \<sigma>) = (True, tx, s) \<and> ftype tx = Data"
proof -
  obtain \<sigma> where e: "reachable \<sigma>" "quiet \<sigma>" "cstate (co \<sigma>) = Idle" "read_buffer (co \<sigma>) = [ping]"
    using ping_queued by blast
  then have "has_data (co \<sigma>)" "\<not> connection_reset_required (co \<sigma>)"
    by (simp_all add: has_data_def quiet_def)
  from idle_coordinator_sends_data [OF e(1) this(2) e(3) this(1)] e(4) show ?thesis
    by blast
qed

end
