(* ===== verification/Liveness.thy ===== *)
theory Liveness
  imports Session_Run
begin

text \<open>
  Progress of a session. \<open>exchanges_left\<close> bounds the lossless exchanges that are needed until both
  queues are carried over: one for every fragment that has not arrived, and at most two to hand the
  turn to the peer and back. Every lossless exchange decreases it, so a session delivers everything.
\<close>

section \<open>What is left to be carried over\<close>

definition load :: "'a link_scheme \<Rightarrow> nat" where
  "load s = sum_list (map fragment_count (read_buffer s))"

text \<open>The fragment in flight has arrived and its acknowledgement has not come back.\<close>

definition accepted :: "'a link_scheme \<Rightarrow> 'b link_scheme \<Rightarrow> bool" where
  "accepted s r \<longleftrightarrow> tx_in_flight s \<and> last_rx_seq r = Some (next_tx_seq s)"

definition fresh_load :: "'a link_scheme \<Rightarrow> 'b link_scheme \<Rightarrow> nat" where
  "fresh_load s r = load s - (if accepted s r then 1 else 0)"

lemma load_view: "tx_view s' = tx_view s \<Longrightarrow> load s' = load s"
  by (simp add: tx_view_def load_def)

lemma accepted_view:
  "tx_view s' = tx_view s \<Longrightarrow> rx_view r' = rx_view r \<Longrightarrow> accepted s' r' = accepted s r"
  by (simp add: view_defs accepted_def)

lemma load_in_flight [simp]: "load (in_flight s) = load s"
  by (simp add: load_def frame_simps)

lemma fragment_count_pos: "p \<noteq> [] \<Longrightarrow> 0 < fragment_count p"
  by (cases p) (simp_all add: fragment_count_def)

lemma load_pos: "link_wf s \<Longrightarrow> 0 < load s \<longleftrightarrow> has_data s"
  by (cases "read_buffer s")
    (auto simp: load_def has_data_def link_wf_def fragment_count_pos split: if_splits)

lemma fragment_count_drop: "27 < length p \<Longrightarrow> fragment_count p = Suc (fragment_count (drop 27 p))"
proof -
  assume "27 < length p"
  then have "length p + 26 = 27 + (length (drop 27 p) + 26)"
    by simp
  then show ?thesis
    by (simp add: fragment_count_def)
qed

lemma fragment_count_one: "p \<noteq> [] \<Longrightarrow> length p \<le> 27 \<Longrightarrow> fragment_count p = 1"
proof -
  assume "p \<noteq> []" "length p \<le> 27"
  then have "0 < length p" "length p \<le> 27" by simp_all
  then show ?thesis unfolding fragment_count_def by linarith
qed

lemma load_commit:
  assumes "link_wf s" and "tx_in_flight s"
  shows "load s = Suc (load (CommitAckLocked (next_tx_seq s) s))"
proof -
  obtain p ps where rb: "read_buffer s = p # ps" and ne: "p \<noteq> []"
    using assms by (cases "read_buffer s") (auto simp: link_wf_def)
  then show ?thesis
    using fragment_count_one [of p] fragment_count_drop [of p]
    by (auto simp: load_def commit_current [OF assms rb])
qed

text \<open>What a sender is left with when it learns what the receiver has accepted.\<close>

lemma ack_value_next:
  "link_wf s \<Longrightarrow> ack_value r = next_tx_seq s \<longleftrightarrow> last_rx_seq r = Some (next_tx_seq s)"
  by (auto simp: ack_value_def link_wf_def kNoSeq_def split: option.split)

lemma load_take_ack:
  assumes "link_wf s"
  shows "load (CommitAckLocked (ack_value r) s) = fresh_load s r"
    and "\<not> accepted (CommitAckLocked (ack_value r) s) r"
proof -
  have "load (CommitAckLocked (ack_value r) s) = fresh_load s r \<and>
      \<not> accepted (CommitAckLocked (ack_value r) s) r"
  proof (cases "accepted s r")
    case True
    then have "ack_value r = next_tx_seq s" "tx_in_flight s"
      using ack_value_next [OF assms] by (auto simp: accepted_def)
    moreover have "\<not> tx_in_flight (CommitAckLocked (next_tx_seq s) s)"
      using assms calculation by (cases "read_buffer s") (auto simp: commit_current, simp add: link_wf_def)
    ultimately show ?thesis
      using True load_commit [OF assms] by (simp add: fresh_load_def accepted_def)
  next
    case False
    then have "CommitAckLocked (ack_value r) s = s"
      using ack_value_next [OF assms] assms by (intro commit_other_ack) (auto simp: accepted_def)
    with False show ?thesis
      by (simp add: fresh_load_def)
  qed
  then show "load (CommitAckLocked (ack_value r) s) = fresh_load s r"
    and "\<not> accepted (CommitAckLocked (ack_value r) s) r"
    by simp_all
qed

lemma link_after_tx: "tx_view (link_after f s) = tx_view (CommitAckLocked (ack f) s)"
  by (simp add: link_after_def)

lemma link_after_rx_other: "ftype f \<noteq> Data \<Longrightarrow> rx_view (link_after f s) = rx_view s"
  by (simp add: link_after_def)

lemma link_after_last:
  assumes "ftype f = Data" and "fst (ConsumeDataFrameLocked f s)"
  shows "last_rx_seq (link_after f s) = Some (seq f)"
proof -
  have "fst (ConsumeDataFrameLocked f (CommitAckLocked (ack f) s))"
    using consume_cong(1) [OF commit_rx_view] assms(2) by blast
  then have "last_rx_seq (snd (ConsumeDataFrameLocked f (CommitAckLocked (ack f) s))) = Some (seq f)"
    using assms(1)
    by (auto simp: ConsumeDataFrameLocked_def WriteTunnel_def Let_def split: option.splits if_splits)
  with assms(1) show ?thesis
    by (simp add: link_after_def)
qed

lemma rx_view_last: "rx_view s' = rx_view s \<Longrightarrow> last_rx_seq s' = last_rx_seq s"
  by (simp add: rx_view_def)

text \<open>A sent DATA frame whose fragment the receiver has accepted is the sender's fragment in flight.\<close>

lemma sent_load: "sends f s s' \<Longrightarrow> load s' = load s"
  using load_view [of s' s] load_view [of s' "in_flight s"] by (auto simp: sends_def split: if_splits)

lemma sent_accepted:
  assumes "sends f s s'" and "ftype f = Data" and "last_rx_seq r = Some (seq f)" and "link_wf s"
  shows "accepted s' r" and "0 < load s"
  using assms load_pos [of s]
  by (auto simp: sends_def accepted_def tx_view_def in_flight_def split: if_splits)

section \<open>One exchange\<close>

lemma exchange_loads:
  assumes r: "reachable \<sigma>" and ex: "exchanged \<sigma> \<sigma>1 f \<sigma>2 g u \<sigma>'"
  shows "load (co \<sigma>) = load (co \<sigma>') + (if ftype f = Data then 1 else 0) \<or>
      ftype f \<noteq> Data \<and> load (co \<sigma>') \<le> load (co \<sigma>)"
    and "fresh_load (pe \<sigma>) (co \<sigma>) = fresh_load (pe \<sigma>') (co \<sigma>') + (if ftype g = Data then 1 else 0)"
    and "has_data u \<longleftrightarrow> 0 < fresh_load (pe \<sigma>) (co \<sigma>)"
    and "has_data (co \<sigma>) \<longleftrightarrow> 0 < load (co \<sigma>)"
proof -
  from ex have st: "sys_step \<sigma> \<sigma>1" "sys_step \<sigma>1 \<sigma>2" "\<not> connection_reset_required (co \<sigma>1)"
      "pe \<sigma>1 = pe \<sigma>" "co \<sigma>2 = co \<sigma>1" "to_coord \<sigma>1 = []" "to_peer \<sigma>2 = []"
    and f: "sends f (co \<sigma>) (co \<sigma>1)" and g: "sends g u (pe \<sigma>2)"
    and u: "tx_view u = tx_view (link_after f (pe \<sigma>))" "rx_view u = rx_view (link_after f (pe \<sigma>))"
    and e: "pe \<sigma>' = pe \<sigma>2" "tx_view (co \<sigma>') = tx_view (link_after g (co \<sigma>2))"
      "rx_view (co \<sigma>') = rx_view (link_after g (co \<sigma>2))"
    by (simp_all add: exchanged_def)
  from ex obtain p q where p: "to_peer \<sigma>1 = [p]" "DecodeMacFrame p = Some f"
    and q: "to_coord \<sigma>2 = [q]" "DecodeMacFrame q = Some g"
    by (auto simp: exchanged_def)
  have r1: "reachable \<sigma>1" and r2: "reachable \<sigma>2"
    using r st(1,2) reachable.step by blast+
  have ses: "session \<sigma>1" "session \<sigma>2" and wf: "link_wf (co \<sigma>)" "link_wf (pe \<sigma>)" "link_wf (co \<sigma>1)"
    using reachable_inv [OF r] reachable_inv [OF r1] reachable_inv [OF r2] st(3,5)
    by (auto simp: sys_inv_def)
  have wfu: "link_wf u"
    using link_wf_view [OF u] link_wf_after [OF wf(2)] by blast
  have af: "ack f = ack_value (co \<sigma>)" and ag: "ack g = ack_value u"
    and v1: "rx_view (co \<sigma>1) = rx_view (co \<sigma>)"
    using f g by (simp_all add: sends_def)
  have lu: "load u = fresh_load (pe \<sigma>) (co \<sigma>)"
    using load_view [OF u(1)] load_view [OF link_after_tx] load_take_ack(1) [OF wf(2), of "co \<sigma>"] af
    by metis
  have na: "\<not> accepted u (co \<sigma>1)"
    using accepted_view [of u "CommitAckLocked (ack f) (pe \<sigma>)" "co \<sigma>1" "co \<sigma>"] u(1) v1 af
      load_take_ack(2) [OF wf(2), of "co \<sigma>"] by (simp add: link_after_tx)
  show "has_data u \<longleftrightarrow> 0 < fresh_load (pe \<sigma>) (co \<sigma>)"
    using load_pos [OF wfu] lu by simp
  show "has_data (co \<sigma>) \<longleftrightarrow> 0 < load (co \<sigma>)"
    using load_pos [OF wf(1)] by simp
  have lc: "load (co \<sigma>') = fresh_load (co \<sigma>1) u"
    using load_view [OF e(2)] load_view [OF link_after_tx] load_take_ack(1) [OF wf(3), of u] ag st(5)
    by metis
  have l1: "load (co \<sigma>1) = load (co \<sigma>)"
    using sent_load [OF f] .
  have "accepted (co \<sigma>1) u \<and> 0 < load (co \<sigma>)" if "ftype f = Data"
  proof -
    have "lk.chan_inv (co_hist \<sigma>1) (co \<sigma>1) (pe \<sigma>) (data_of [p]) (acks_of [])"
      using ses(1) p(1) st(4,6) by (simp add: session_def)
    from chan_take_data(1) [OF this p(2) that] have "last_rx_seq u = Some (seq f)"
      using link_after_last [OF that] rx_view_last [OF u(2)] by simp
    from sent_accepted [OF f that this wf(1)] show ?thesis ..
  qed
  with lc l1 show "load (co \<sigma>) = load (co \<sigma>') + (if ftype f = Data then 1 else 0) \<or>
      ftype f \<noteq> Data \<and> load (co \<sigma>') \<le> load (co \<sigma>)"
    by (auto simp: fresh_load_def)
  have l2: "load (pe \<sigma>2) = load u"
    using sent_load [OF g] .
  show "fresh_load (pe \<sigma>) (co \<sigma>) = fresh_load (pe \<sigma>') (co \<sigma>') + (if ftype g = Data then 1 else 0)"
  proof (cases "ftype g = Data")
    case True
    have "lk.chan_inv (pe_hist \<sigma>2) (pe \<sigma>2) (co \<sigma>2) (data_of [q]) (acks_of [])"
      using ses(2) q(1) st(7) by (simp add: session_def)
    from chan_take_data(1) [OF this q(2) True] have "last_rx_seq (co \<sigma>') = Some (seq g)"
      using link_after_last [OF True] rx_view_last [OF e(3)] by simp
    from sent_accepted [OF g True this wfu] l2 lu e(1) True show ?thesis
      by (simp add: fresh_load_def)
  next
    case False
    then have "\<not> accepted (pe \<sigma>2) (co \<sigma>')"
      using na accepted_view [of "pe \<sigma>2" u "co \<sigma>'" "co \<sigma>1"] g e(3) link_after_rx_other [of g "co \<sigma>2"] st(5)
      by (simp add: sends_def)
    with False l2 lu e(1) show ?thesis
      by (simp add: fresh_load_def)
  qed
qed

section \<open>Every lossless exchange is progress\<close>

definition exchanges_left :: "system \<Rightarrow> nat" where
  "exchanges_left \<sigma> =
     load (co \<sigma>) + fresh_load (pe \<sigma>) (co \<sigma>) +
     (if cstate (co \<sigma>) \<noteq> Idle then 1 else if fresh_load (pe \<sigma>) (co \<sigma>) = 0 then 0 else 2)"

lemma exchanges_left_bound: "exchanges_left \<sigma> \<le> load (co \<sigma>) + load (pe \<sigma>) + 2"
  unfolding exchanges_left_def fresh_load_def by auto

lemma turn_decreases:
  fixes a a' r r' :: nat
  assumes "a = a' + (if idle \<and> data then 1 else 0) \<or> \<not> (idle \<and> data) \<and> a' \<le> a"
    and "r = r' + (if \<not> idle \<and> rest then 1 else 0)" and "0 < r \<longleftrightarrow> rest" and "0 < a \<longleftrightarrow> data"
  shows "a' + r' + (if rest then 1 else if r' = 0 then 0 else 2)
    \<le> a + r + (if \<not> idle then 1 else if r = 0 then 0 else 2) - 1"
  using assms by (cases idle; cases data; cases rest) auto

lemma exchange_decreases:
  assumes r: "reachable \<sigma>" and ex: "exchanged \<sigma> \<sigma>1 f \<sigma>2 g u \<sigma>'"
  shows "exchanges_left \<sigma>' \<le> exchanges_left \<sigma> - 1"
proof -
  from ex have "ftype f = request_type (cstate (co \<sigma>)) (has_data (co \<sigma>))"
      "ftype f = Grant \<longrightarrow> arg f = 3" "ftype g = response_type f (has_data u)"
      "cstate (co \<sigma>') = Idle \<longleftrightarrow> ftype g = Ack"
    by (simp_all add: exchanged_def)
  then have t: "ftype f = Data \<longleftrightarrow> cstate (co \<sigma>) = Idle \<and> has_data (co \<sigma>)"
      "ftype g = Data \<longleftrightarrow> \<not> cstate (co \<sigma>) = Idle \<and> has_data u"
      "cstate (co \<sigma>') \<noteq> Idle \<longleftrightarrow> has_data u"
    by (auto simp: request_type_def response_type_def)
  note loads = exchange_loads [OF r ex, unfolded t(1,2)]
  show ?thesis
    using turn_decreases [OF loads(1,2) loads(3,4) [symmetric]]
    by (simp only: exchanges_left_def t(3))
qed

lemma lossless_run:
  assumes "reachable \<sigma>" and "quiet \<sigma>" and "(lossless ^^ n) \<sigma> \<sigma>'"
  shows "reachable \<sigma>' \<and> quiet \<sigma>' \<and> co_hist \<sigma>' = co_hist \<sigma> \<and> pe_hist \<sigma>' = pe_hist \<sigma> \<and>
    exchanges_left \<sigma>' \<le> exchanges_left \<sigma> - n"
  using assms(3)
proof (induction n arbitrary: \<sigma>')
  case 0
  with assms show ?case by simp
next
  case (Suc n)
  then obtain \<rho> where "(lossless ^^ n) \<sigma> \<rho>" and l: "lossless \<rho> \<sigma>'"
    by (auto elim: relcomppE)
  from Suc.IH [OF this(1)] have i: "reachable \<rho>" "quiet \<rho>" "co_hist \<rho> = co_hist \<sigma>"
      "pe_hist \<rho> = pe_hist \<sigma>" "exchanges_left \<rho> \<le> exchanges_left \<sigma> - n"
    by simp_all
  obtain \<sigma>1 f \<sigma>2 g u where ex: "exchanged \<rho> \<sigma>1 f \<sigma>2 g u \<sigma>'"
    using lossless_exchanged [OF i(1,2) l] by blast
  then have "sys_step \<rho> \<sigma>1" "sys_step \<sigma>1 \<sigma>2" "sys_step \<sigma>2 \<sigma>'" "quiet \<sigma>'"
      "co_hist \<sigma>' = co_hist \<rho>" "pe_hist \<sigma>' = pe_hist \<rho>"
    by (simp_all add: exchanged_def)
  moreover from this i(1) have "reachable \<sigma>'"
    by (meson reachable.step)
  ultimately show ?case
    using i exchange_decreases [OF i(1) ex] by simp
qed

lemma lossless_run_possible:
  assumes "reachable \<sigma>" and "quiet \<sigma>"
  shows "\<exists>\<sigma>'. (lossless ^^ n) \<sigma> \<sigma>'"
proof (induction n)
  case (Suc n)
  then obtain \<rho> where r: "(lossless ^^ n) \<sigma> \<rho>" ..
  with lossless_run [OF assms this] lossless_possible [of \<rho>] show ?case
    by auto
qed auto

section \<open>A session delivers everything\<close>

lemma no_load_outstanding: "link_wf s \<Longrightarrow> load s = 0 \<Longrightarrow> outstanding s r = [] \<and> \<not> tx_in_flight s"
  using load_pos [of s] by (simp add: has_data_def outstanding_def)

lemma nothing_fresh_waiting:
  assumes "link_wf s" and "fresh_load s r = 0"
  shows "waiting s r = []"
proof (cases "accepted s r")
  case True
  then have "load (CommitAckLocked (next_tx_seq s) s) = 0"
    using load_commit [OF assms(1)] assms(2) by (simp add: accepted_def fresh_load_def)
  with no_load_outstanding [OF link_wf_commit [OF assms(1)], of "next_tx_seq s" r] True show ?thesis
    by (simp add: waiting_def accepted_def)
next
  case False
  with no_load_outstanding [OF assms(1), of r] assms(2) show ?thesis
    by (auto simp: waiting_def accepted_def fresh_load_def)
qed

lemma nothing_left:
  assumes "reachable \<sigma>" and "exchanges_left \<sigma> = 0"
  shows "waiting (co \<sigma>) (pe \<sigma>) = [] \<and> waiting (pe \<sigma>) (co \<sigma>) = []"
proof -
  have "link_wf (co \<sigma>)" "link_wf (pe \<sigma>)"
    using reachable_inv [OF assms(1)] by (simp_all add: sys_inv_def)
  moreover have "fresh_load (co \<sigma>) (pe \<sigma>) = 0" "fresh_load (pe \<sigma>) (co \<sigma>) = 0"
    using assms(2) by (simp_all add: exchanges_left_def fresh_load_def)
  ultimately show ?thesis
    by (simp add: nothing_fresh_waiting)
qed

lemma delivered_since:
  assumes "lk.chan_inv h s r ds as" and "lk.chan_inv h s' r' ds' as'" and "waiting s' r' = []"
  shows "tun_out r' = tun_out r @ filter IsValidIpPacket (waiting s r)"
  using chan_waiting [OF assms(1)] chan_waiting [OF assms(2)] assms(3) by auto

lemma lossless_delivers:
  assumes r: "reachable \<sigma>" and q: "quiet \<sigma>" and run: "(lossless ^^ n) \<sigma> \<sigma>'" and n: "exchanges_left \<sigma> \<le> n"
  shows "waiting (co \<sigma>') (pe \<sigma>') = [] \<and> waiting (pe \<sigma>') (co \<sigma>') = [] \<and>
    tun_out (pe \<sigma>') = tun_out (pe \<sigma>) @ filter IsValidIpPacket (waiting (co \<sigma>) (pe \<sigma>)) \<and>
    tun_out (co \<sigma>') = tun_out (co \<sigma>) @ filter IsValidIpPacket (waiting (pe \<sigma>) (co \<sigma>))"
proof -
  from lossless_run [OF r q run] n have e: "reachable \<sigma>'" "quiet \<sigma>'" "co_hist \<sigma>' = co_hist \<sigma>"
      "pe_hist \<sigma>' = pe_hist \<sigma>" "exchanges_left \<sigma>' = 0"
    by simp_all
  then have "session \<sigma>" "session \<sigma>'"
    using reachable_inv [OF r] reachable_inv [OF e(1)] q by (simp_all add: sys_inv_def quiet_def)
  then have c:
    "lk.chan_inv (co_hist \<sigma>) (co \<sigma>) (pe \<sigma>) (data_of (to_peer \<sigma>)) (acks_of (to_coord \<sigma>))"
    "lk.chan_inv (co_hist \<sigma>) (co \<sigma>') (pe \<sigma>') (data_of (to_peer \<sigma>')) (acks_of (to_coord \<sigma>'))"
    "lk.chan_inv (pe_hist \<sigma>) (pe \<sigma>) (co \<sigma>) (data_of (to_coord \<sigma>)) (acks_of (to_peer \<sigma>))"
    "lk.chan_inv (pe_hist \<sigma>) (pe \<sigma>') (co \<sigma>') (data_of (to_coord \<sigma>')) (acks_of (to_peer \<sigma>'))"
    using e(3,4) by (simp_all add: session_def)
  note left = nothing_left [OF e(1,5)]
  from delivered_since [OF c(1,2)] delivered_since [OF c(3,4)] left show ?thesis
    by simp
qed

text \<open>C5. A session makes progress: from every state between two exchanges, lossless
  exchanges can always be made, and after any \<open>n\<close> of them, where \<open>n\<close> is at least the number of
  27-byte fragments queued at both ends plus two, nothing is waiting at either end and both tunnels
  have received the valid IP packets that were waiting, in order.\<close>

theorem session_drains:
  assumes "reachable \<sigma>" and "quiet \<sigma>" and "load (co \<sigma>) + load (pe \<sigma>) + 2 \<le> n"
  shows "(\<exists>\<sigma>'. (lossless ^^ n) \<sigma> \<sigma>') \<and>
    (\<forall>\<sigma>'. (lossless ^^ n) \<sigma> \<sigma>' \<longrightarrow>
      waiting (co \<sigma>') (pe \<sigma>') = [] \<and> waiting (pe \<sigma>') (co \<sigma>') = [] \<and>
      tun_out (pe \<sigma>') = tun_out (pe \<sigma>) @ filter IsValidIpPacket (waiting (co \<sigma>) (pe \<sigma>)) \<and>
      tun_out (co \<sigma>') = tun_out (co \<sigma>) @ filter IsValidIpPacket (waiting (pe \<sigma>) (co \<sigma>)))"
  using lossless_run_possible [OF assms(1,2)] lossless_delivers [OF assms(1,2)]
    exchanges_left_bound [of \<sigma>] assms(3) by (meson order_trans)

theorem session_drains_witness:
  "\<exists>(\<sigma> :: system) n \<sigma>'. read_buffer (co \<sigma>) = [ping] \<and> (lossless ^^ n) \<sigma> \<sigma>' \<and>
     waiting (co \<sigma>') (pe \<sigma>') = [] \<and>
     tun_out (pe \<sigma>') = tun_out (pe \<sigma>) @ filter IsValidIpPacket (waiting (co \<sigma>) (pe \<sigma>))"
proof -
  obtain \<sigma> where e: "reachable \<sigma>" "quiet \<sigma>" "read_buffer (co \<sigma>) = [ping]"
    using ping_queued by blast
  from session_drains [OF e(1,2) order_refl] e(3) show ?thesis
    by blast
qed

end
