(* ===== verification/Recovery.thy ===== *)
theory Recovery
  imports Liveness
begin

text \<open>
  Recovery: whatever was lost, and whether or not the coordinator counts as disconnected, the system
  can get back to a session with nothing in the air, and from there empty both queues. So no
  reachable state is a dead end.
\<close>

lemma lose_all: "sys_step\<^sup>*\<^sup>* \<sigma> (\<sigma>\<lparr>to_peer := [], to_coord := []\<rparr>)"
proof -
  have "sys_step\<^sup>*\<^sup>* \<sigma> (\<sigma>\<lparr>to_peer := []\<rparr>)" for \<sigma>
  proof (induction "to_peer \<sigma>" arbitrary: \<sigma>)
    case Nil
    then show ?case by (cases \<sigma>) simp
  next
    case (Cons p ps)
    from Cons.hyps(2) have "sys_step \<sigma> (\<sigma>\<lparr>to_peer := [] @ ps\<rparr>)"
      by (intro sys_step.lose_request [of _ _ p]) simp
    with Cons.hyps(1) [of "\<sigma>\<lparr>to_peer := ps\<rparr>"] show ?case
      by (simp add: converse_rtranclp_into_rtranclp)
  qed
  moreover have "sys_step\<^sup>*\<^sup>* \<sigma> (\<sigma>\<lparr>to_coord := []\<rparr>)" for \<sigma>
  proof (induction "to_coord \<sigma>" arbitrary: \<sigma>)
    case Nil
    then show ?case by (cases \<sigma>) simp
  next
    case (Cons p ps)
    from Cons.hyps(2) have "sys_step \<sigma> (\<sigma>\<lparr>to_coord := [] @ ps\<rparr>)"
      by (intro sys_step.lose_response [of _ _ p]) simp
    with Cons.hyps(1) [of "\<sigma>\<lparr>to_coord := ps\<rparr>"] show ?case
      by (simp add: converse_rtranclp_into_rtranclp)
  qed
  from calculation [of \<sigma>] this [of "\<sigma>\<lparr>to_peer := []\<rparr>"] show ?thesis
    by (simp add: rtranclp_trans)
qed

text \<open>A receiver that hears nothing until the deadline.\<close>

definition silent_run :: run_env where
  "silent_run = (good_run [])\<lparr>run_exchange := \<lparr>x_send = good_send,
     x_recv = \<lparr>recv_start = 0, recv_obs = (\<lambda>i. \<lparr>available = False, now = - 1,
       line_wait = (\<lambda>t. Wait_timeout), line_read = Read_ok\<rparr>), rx_fifo = []\<rparr>\<rparr>\<rparr>"

lemma silent_wait: "WaitForRxReady (x_recv (run_exchange silent_run)) irq kResponseTimeoutUs = Some Timeout"
  by (simp add: WaitForRxReady_def silent_run_def first_some.simps [of _ 0] poll_body_def irq_body_def
      kResponseTimeoutUs_def)

lemma timeout_possible: "\<exists>t. coordinator_response silent_run tx s = Some (TimeoutFailure, t)"
  by (simp add: coordinator_response_def exchange_response_def Receive_def Let_def silent_wait)

text \<open>With nothing in the air, an exchange under way times out.\<close>

lemma timeout_step:
  assumes "to_peer \<sigma> = []" and "to_coord \<sigma> = []"
  shows "\<exists>\<sigma>'. sys_step\<^sup>*\<^sup>* \<sigma> \<sigma>' \<and> awaiting \<sigma>' = None \<and> to_peer \<sigma>' = [] \<and> to_coord \<sigma>' = []"
proof (cases "awaiting \<sigma>")
  case None
  with assms show ?thesis by blast
next
  case (Some tx)
  obtain t where t: "coordinator_response silent_run tx (co \<sigma>) = Some (TimeoutFailure, t)"
    using timeout_possible by blast
  from sys_step.co_timeout [OF Some t] have "sys_step\<^sup>*\<^sup>* \<sigma> (\<sigma>\<lparr>co := t, awaiting := None\<rparr>)"
    by (rule r_into_rtranclp)
  with assms show ?thesis
    by fastforce
qed

lemma reachable_steps: "sys_step\<^sup>*\<^sup>* \<sigma> \<sigma>' \<Longrightarrow> reachable \<sigma> \<Longrightarrow> reachable \<sigma>'"
  by (induction rule: rtranclp_induct) (auto intro: reachable.step)

lemma session_possible:
  assumes "reachable \<sigma>"
  shows "\<exists>\<sigma>'. sys_step\<^sup>*\<^sup>* \<sigma> \<sigma>' \<and> quiet \<sigma>'"
proof -
  obtain \<rho> where run: "sys_step\<^sup>*\<^sup>* (\<sigma>\<lparr>to_peer := [], to_coord := []\<rparr>) \<rho>"
    and \<rho>: "awaiting \<rho> = None" "to_peer \<rho> = []" "to_coord \<rho> = []"
    using timeout_step [of "\<sigma>\<lparr>to_peer := [], to_coord := []\<rparr>"] by auto
  have steps: "sys_step\<^sup>*\<^sup>* \<sigma> \<rho>"
    using lose_all run by (rule rtranclp_trans)
  show ?thesis
  proof (cases "connection_reset_required (co \<rho>)")
    case True
    have "sys_inv \<rho>"
      using reachable_inv [OF reachable_steps [OF steps assms]] .
    from reset_possible [OF this True \<rho>(2,3)] steps show ?thesis
      by (meson rtranclp.rtrancl_into_rtrancl)
  next
    case False
    with steps \<rho> show ?thesis
      by (auto simp: quiet_def)
  qed
qed

lemma lossless_steps:
  assumes "reachable \<sigma>" and "quiet \<sigma>" and "(lossless ^^ n) \<sigma> \<sigma>'"
  shows "sys_step\<^sup>*\<^sup>* \<sigma> \<sigma>'"
  using assms(3)
proof (induction n arbitrary: \<sigma>')
  case (Suc n)
  then obtain \<rho> where \<rho>: "(lossless ^^ n) \<sigma> \<rho>" and l: "lossless \<rho> \<sigma>'"
    by (auto elim: relcomppE)
  from lossless_run [OF assms(1,2) \<rho>] have "reachable \<rho>" "quiet \<rho>"
    by simp_all
  then obtain \<sigma>1 f \<sigma>2 g u where "exchanged \<rho> \<sigma>1 f \<sigma>2 g u \<sigma>'"
    using lossless_exchanged l by blast
  then have "sys_step\<^sup>*\<^sup>* \<rho> \<sigma>'"
    by (meson exchanged_def converse_rtranclp_into_rtranclp rtranclp.rtrancl_refl)
  with Suc.IH [OF \<rho>] show ?case
    by (rule rtranclp_trans)
qed simp

text \<open>C6. No reachable state is a dead end. From every one of them, whatever was lost,
  whatever is half sent and even if the coordinator counts as disconnected, the system can continue to
  a session in which nothing is in the air and nothing is waiting at either end.\<close>

theorem system_recovers:
  assumes "reachable \<sigma>"
  shows "\<exists>(\<sigma>' :: system). sys_step\<^sup>*\<^sup>* \<sigma> \<sigma>' \<and> \<not> connection_reset_required (co \<sigma>') \<and> \<not> disconnected (co \<sigma>') \<and>
    awaiting \<sigma>' = None \<and> to_peer \<sigma>' = [] \<and> to_coord \<sigma>' = [] \<and>
    waiting (co \<sigma>') (pe \<sigma>') = [] \<and> waiting (pe \<sigma>') (co \<sigma>') = []"
proof -
  obtain \<rho> where \<rho>: "sys_step\<^sup>*\<^sup>* \<sigma> \<rho>" "quiet \<rho>"
    using session_possible [OF assms] by blast
  have r: "reachable \<rho>"
    using reachable_steps [OF \<rho>(1) assms] .
  obtain \<sigma>' where run: "(lossless ^^ exchanges_left \<rho>) \<rho> \<sigma>'"
    using lossless_run_possible [OF r \<rho>(2)] by blast
  have "reachable \<sigma>'" "quiet \<sigma>'"
    using lossless_run [OF r \<rho>(2) run] by simp_all
  moreover from this have "\<not> disconnected (co \<sigma>')"
    using reachable_inv by (auto simp: sys_inv_def quiet_def mode_ok_def)
  moreover have "sys_step\<^sup>*\<^sup>* \<sigma> \<sigma>'"
    using \<rho>(1) lossless_steps [OF r \<rho>(2) run] by (rule rtranclp_trans)
  ultimately show ?thesis
    using lossless_delivers [OF r \<rho>(2) run order_refl] by (auto simp: quiet_def)
qed

theorem system_recovers_witness:
  "\<exists>(\<sigma> :: system) \<sigma>'. read_buffer (co \<sigma>) = [ping] \<and> sys_step\<^sup>*\<^sup>* \<sigma> \<sigma>' \<and> waiting (co \<sigma>') (pe \<sigma>') = []"
proof -
  obtain \<sigma> where "reachable \<sigma>" "read_buffer (co \<sigma>) = [ping]"
    using ping_queued by blast
  with system_recovers [of \<sigma>] show ?thesis
    by blast
qed

end
