(* ===== verification/Fair_Delivery.thy ===== *)
theory Fair_Delivery
  imports Recovery
begin

text \<open>
  Delivery on a channel that goes on losing and repeating packets. No step of a session undoes
  progress: the number of fragments that have not arrived, \<open>todo\<close>, never grows while the tunnels
  offer nothing, and three undisturbed exchanges in a row decrease it. So everything is delivered if
  three such exchanges happen again and again.
\<close>

section \<open>What a step within a session changes\<close>

definition calm :: "system \<Rightarrow> system \<Rightarrow> bool" where
  "calm \<sigma> \<sigma>' \<longleftrightarrow>
     sys_step \<sigma> \<sigma>' \<and> \<not> connection_reset_required (co \<sigma>) \<and> \<not> connection_reset_required (co \<sigma>') \<and>
     co_hist \<sigma>' = co_hist \<sigma> \<and> pe_hist \<sigma>' = pe_hist \<sigma>"

lemma calm_cases:
  assumes inv: "sys_inv \<sigma>" and calm: "calm \<sigma> \<sigma>'"
  obtains (same) "tx_view (co \<sigma>') = tx_view (co \<sigma>)" "rx_view (co \<sigma>') = rx_view (co \<sigma>)"
      "tx_view (pe \<sigma>') = tx_view (pe \<sigma>)" "rx_view (pe \<sigma>') = rx_view (pe \<sigma>)"
  | (co_sends) f where "sends f (co \<sigma>) (co \<sigma>')" "pe \<sigma>' = pe \<sigma>"
  | (co_takes) p ps f where "to_coord \<sigma> = p # ps" "DecodeMacFrame p = Some f" "pe \<sigma>' = pe \<sigma>"
      "tx_view (co \<sigma>') = tx_view (link_after f (co \<sigma>))" "rx_view (co \<sigma>') = rx_view (link_after f (co \<sigma>))"
  | (pe_takes) p ps f u g where "to_peer \<sigma> = p # ps" "DecodeMacFrame p = Some f" "co \<sigma>' = co \<sigma>"
      "tx_view u = tx_view (link_after f (pe \<sigma>))" "rx_view u = rx_view (link_after f (pe \<sigma>))"
      "sends g u (pe \<sigma>')"
proof -
  from inv calm have ses: "session \<sigma>" and wf: "link_wf (co \<sigma>)" "mode_ok (co \<sigma>)"
    and up: "\<not> connection_reset_required (co \<sigma>)"
    by (auto simp: sys_inv_def calm_def)
  from calm have "sys_step \<sigma> \<sigma>'" and up': "\<not> connection_reset_required (co \<sigma>')"
    and h: "co_hist \<sigma>' = co_hist \<sigma>" "pe_hist \<sigma>' = pe_hist \<sigma>"
    by (simp_all add: calm_def)
  then show thesis
  proof (cases rule: sys_step.cases)
    case (co_tunnel input pc s)
    from co_tunnel(2) show thesis
    proof (cases rule: TunnelThread_cases)
      case quiet
      with co_tunnel(1) show thesis by (intro same) simp_all
    next
      case (push p)
      with co_tunnel(1) h show thesis by (simp add: prod_eq_iff)
    qed
  next
    case (pe_tunnel input pc s)
    from pe_tunnel(2) show thesis
    proof (cases rule: TunnelThread_cases)
      case quiet
      with pe_tunnel(1) show thesis by (intro same) simp_all
    next
      case (push p)
      with pe_tunnel(1) h show thesis by (simp add: prod_eq_iff)
    qed
  next
    case (co_request env tx s)
    show thesis
      by (rule coordinator_request_cases [OF wf up co_request(4)]) (auto intro: co_sends simp: co_request(1))
  next
    case (co_response tx p ps env result s)
    show thesis
      by (rule co_response_session [OF inv co_response(2-6)])
        (auto intro: co_takes [OF co_response(3)] simp: co_response(1))
  next
    case (co_timeout tx env s)
    from coordinator_response_cases [OF co_timeout(3) wf(2)] have
      "tx_view s = tx_view (co \<sigma>)" "rx_view s = rx_view (co \<sigma>)"
      by metis+
    with co_timeout(1) show thesis by (intro same) simp_all
  next
    case (pe_receive p ps env s)
    show thesis
      by (rule pe_receive_session [OF inv ses pe_receive(2-5)])
        (auto intro: pe_takes [OF pe_receive(2)] simp: pe_receive(1))
  next
    case (pe_idle env s)
    from Peer_step_cases [OF pe_idle(3)] pe_idle(2) have
      "tx_view s = tx_view (pe \<sigma>)" "rx_view s = rx_view (pe \<sigma>)"
      by metis+
    with pe_idle(1) show thesis by (intro same) simp_all
  qed (use up in \<open>auto intro: same\<close>)
qed

section \<open>No step undoes progress\<close>

definition todo :: "system \<Rightarrow> nat" where
  "todo \<sigma> = fresh_load (co \<sigma>) (pe \<sigma>) + fresh_load (pe \<sigma>) (co \<sigma>)"

lemma fresh_load_view:
  "tx_view s' = tx_view s \<Longrightarrow> rx_view r' = rx_view r \<Longrightarrow> fresh_load s' r' = fresh_load s r"
  using load_view [of s' s] accepted_view [of s' s r' r] by (simp add: fresh_load_def)

lemma fresh_load_commit:
  assumes "link_wf s"
  shows "fresh_load (CommitAckLocked a s) r \<le> fresh_load s r"
proof (cases "tx_in_flight s \<and> a = next_tx_seq s")
  case True
  with load_commit [OF assms] show ?thesis
    by (auto simp: fresh_load_def)
next
  case False
  then have "CommitAckLocked a s = s"
    using assms by (intro commit_other_ack) auto
  then show ?thesis by simp
qed

lemma fresh_load_sends:
  assumes "sends f s s'"
  shows "fresh_load s' r \<le> fresh_load s r"
proof -
  have "accepted s r \<Longrightarrow> accepted s' r"
    using assms by (auto simp: sends_def accepted_def tx_view_def in_flight_def split: if_splits)
  with sent_load [OF assms] show ?thesis
    by (auto simp: fresh_load_def)
qed

text \<open>A frame that arrives commits at most the fragment it acknowledges, and can only add to what
  the other end has got across.\<close>

lemma fresh_load_takes:
  assumes "link_wf s" and "lk.chan_inv h r s (data_of (p # ps)) as" and f: "DecodeMacFrame p = Some f"
    and v: "tx_view s' = tx_view (link_after f s)" "rx_view s' = rx_view (link_after f s)"
  shows "fresh_load s' r \<le> fresh_load s r" and "fresh_load r s' \<le> fresh_load r s"
proof -
  show "fresh_load s' r \<le> fresh_load s r"
    using fresh_load_view [of s' "CommitAckLocked (ack f) s" r r] fresh_load_commit [OF assms(1)] v(1)
    by (simp add: link_after_tx)
  have "accepted r s \<Longrightarrow> accepted r s'"
  proof (cases "ftype f = Data")
    case True
    assume "accepted r s"
    have "lk.chan_inv h r s ((seq f, arg f, payload f) # data_of ps) as"
      using assms(2) f True by (simp add: packet_data_def)
    from lk.chan_accepted [OF this] \<open>accepted r s\<close> have "seq f = next_tx_seq r"
      by (simp add: accepted_def)
    moreover have "last_rx_seq s' = Some (seq f)"
      using link_after_last [OF True chan_take_data(1) [OF assms(2) f True]] rx_view_last [OF v(2)]
      by simp
    ultimately show "accepted r s'"
      using \<open>accepted r s\<close> by (simp add: accepted_def)
  next
    case False
    assume "accepted r s"
    moreover have "rx_view s' = rx_view s"
      using v(2) link_after_rx_other [OF False] by simp
    ultimately show "accepted r s'"
      using accepted_view by blast
  qed
  then show "fresh_load r s' \<le> fresh_load r s"
    by (auto simp: fresh_load_def)
qed

lemma calm_todo:
  assumes inv: "sys_inv \<sigma>" and calm: "calm \<sigma> \<sigma>'"
  shows "todo \<sigma>' \<le> todo \<sigma>"
proof -
  from inv calm have wf: "link_wf (co \<sigma>)" "link_wf (pe \<sigma>)" and
    c: "lk.chan_inv (co_hist \<sigma>) (co \<sigma>) (pe \<sigma>) (data_of (to_peer \<sigma>)) (acks_of (to_coord \<sigma>))"
      "lk.chan_inv (pe_hist \<sigma>) (pe \<sigma>) (co \<sigma>) (data_of (to_coord \<sigma>)) (acks_of (to_peer \<sigma>))"
    by (auto simp: sys_inv_def calm_def session_def)
  from inv calm show ?thesis
  proof (cases rule: calm_cases)
    case same
    then show ?thesis
      using fresh_load_view [of "co \<sigma>'" "co \<sigma>" "pe \<sigma>'" "pe \<sigma>"]
        fresh_load_view [of "pe \<sigma>'" "pe \<sigma>" "co \<sigma>'" "co \<sigma>"] by (simp add: todo_def)
  next
    case (co_sends f)
    then have "rx_view (co \<sigma>') = rx_view (co \<sigma>)"
      by (simp add: sends_def)
    with co_sends fresh_load_sends [OF co_sends(1), of "pe \<sigma>"]
      fresh_load_view [of "pe \<sigma>" "pe \<sigma>" "co \<sigma>'" "co \<sigma>"] show ?thesis
      by (simp add: todo_def)
  next
    case (co_takes p ps f)
    from fresh_load_takes [OF wf(1) c(2) [unfolded co_takes(1)] co_takes(2,4,5)] co_takes(3)
    show ?thesis
      by (simp add: todo_def)
  next
    case (pe_takes p ps f u g)
    have "rx_view (pe \<sigma>') = rx_view u"
      using pe_takes(6) by (simp add: sends_def)
    with fresh_load_takes [OF wf(2) c(1) [unfolded pe_takes(1)] pe_takes(2,4,5)]
      fresh_load_sends [OF pe_takes(6), of "co \<sigma>"] fresh_load_view [of "co \<sigma>" "co \<sigma>" "pe \<sigma>'" u] pe_takes(3)
    show ?thesis
      by (simp add: todo_def)
  qed
qed

section \<open>Runs\<close>

lemma calm_run:
  assumes "reachable \<sigma>" and "calm\<^sup>*\<^sup>* \<sigma> \<sigma>'"
  shows "reachable \<sigma>' \<and> todo \<sigma>' \<le> todo \<sigma> \<and> co_hist \<sigma>' = co_hist \<sigma> \<and> pe_hist \<sigma>' = pe_hist \<sigma>"
  using assms(2)
proof (induction rule: rtranclp_induct)
  case (step \<rho> \<sigma>')
  then have "reachable \<sigma>'" "todo \<sigma>' \<le> todo \<rho>"
    using calm_todo [OF reachable_inv] by (auto simp: calm_def intro: reachable.step)
  with step show ?case
    by (auto simp: calm_def)
qed (use assms(1) in simp)

lemma calm_in_session:
  "calm\<^sup>*\<^sup>* \<sigma> \<sigma>' \<Longrightarrow> \<not> connection_reset_required (co \<sigma>') \<Longrightarrow> \<not> connection_reset_required (co \<sigma>)"
  by (erule converse_rtranclpE) (auto simp: calm_def)

lemma lossless_calm:
  assumes "reachable \<sigma>" and "quiet \<sigma>" and "lossless \<sigma> \<sigma>'"
  shows "calm\<^sup>*\<^sup>* \<sigma> \<sigma>' \<and> reachable \<sigma>' \<and> quiet \<sigma>'"
proof -
  obtain \<sigma>1 f \<sigma>2 g u where "exchanged \<sigma> \<sigma>1 f \<sigma>2 g u \<sigma>'"
    using lossless_exchanged [OF assms] by blast
  then have ex: "sys_step \<sigma> \<sigma>1" "sys_step \<sigma>1 \<sigma>2" "sys_step \<sigma>2 \<sigma>'" "quiet \<sigma>'"
      "\<not> connection_reset_required (co \<sigma>1)" "co \<sigma>2 = co \<sigma>1"
      "\<forall>\<rho> \<in> {\<sigma>1, \<sigma>2, \<sigma>'}. co_hist \<rho> = co_hist \<sigma> \<and> pe_hist \<rho> = pe_hist \<sigma>"
    by (simp_all add: exchanged_def)
  then have "calm \<sigma> \<sigma>1" "calm \<sigma>1 \<sigma>2" "calm \<sigma>2 \<sigma>'"
    using assms(2) by (simp_all add: calm_def quiet_def)
  then have "calm\<^sup>*\<^sup>* \<sigma> \<sigma>'"
    by (meson converse_rtranclp_into_rtranclp rtranclp.rtrancl_refl)
  with calm_run [OF assms(1) this] ex(4) show ?thesis
    by simp
qed

section \<open>Who is served first\<close>

text \<open>While the coordinator is not idle, a lossless exchange is a GRANT and its answer.\<close>

lemma busy_exchange:
  assumes r: "reachable \<sigma>" and q: "quiet \<sigma>" and l: "lossless \<sigma> \<sigma>'"
    and busy: "cstate (co \<sigma>) \<noteq> Idle" and left: "0 < fresh_load (pe \<sigma>) (co \<sigma>)"
  shows "fresh_load (pe \<sigma>) (co \<sigma>) = Suc (fresh_load (pe \<sigma>') (co \<sigma>'))"
    and "cstate (co \<sigma>') \<noteq> Idle" and "rx_view (pe \<sigma>') = rx_view (pe \<sigma>)"
proof -
  obtain \<sigma>1 f \<sigma>2 g u where ex: "exchanged \<sigma> \<sigma>1 f \<sigma>2 g u \<sigma>'"
    using lossless_exchanged [OF r q l] by blast
  then have f: "ftype f = Grant" "arg f = 3" and g: "ftype g = response_type f (has_data u)"
    and c: "cstate (co \<sigma>') = Idle \<longleftrightarrow> ftype g = Ack" and s: "sends g u (pe \<sigma>2)"
    and v: "rx_view u = rx_view (link_after f (pe \<sigma>))" and e: "pe \<sigma>' = pe \<sigma>2"
    using busy by (auto simp: exchanged_def request_type_def)
  have "has_data u"
    using exchange_loads(3) [OF r ex] left by simp
  with f g have "ftype g = Data"
    by (simp add: response_type_def)
  with exchange_loads(2) [OF r ex] c show "fresh_load (pe \<sigma>) (co \<sigma>) = Suc (fresh_load (pe \<sigma>') (co \<sigma>'))"
    and "cstate (co \<sigma>') \<noteq> Idle"
    by simp_all
  show "rx_view (pe \<sigma>') = rx_view (pe \<sigma>)"
    using s v e f(1) link_after_rx_other [of f "pe \<sigma>"] by (simp add: sends_def)
qed

text \<open>C18. Once the coordinator has left Idle, the peer's queue comes first: as long
  as the peer has fragments to send, every lossless exchange carries exactly one of them, however
  many were granted, the coordinator stays busy, and nothing of its own queue gets across.\<close>

theorem peer_is_served_first:
  assumes "reachable \<sigma>" and "quiet \<sigma>" and "cstate (co \<sigma>) \<noteq> Idle"
    and "n \<le> fresh_load (pe \<sigma>) (co \<sigma>)" and "(lossless ^^ n) \<sigma> \<sigma>'"
  shows "fresh_load (pe \<sigma>') (co \<sigma>') = fresh_load (pe \<sigma>) (co \<sigma>) - n \<and> cstate (co \<sigma>') \<noteq> Idle \<and>
    last_rx_seq (pe \<sigma>') = last_rx_seq (pe \<sigma>) \<and> frame_buffer (pe \<sigma>') = frame_buffer (pe \<sigma>) \<and>
    tun_out (pe \<sigma>') = tun_out (pe \<sigma>)"
proof -
  have "fresh_load (pe \<sigma>') (co \<sigma>') = fresh_load (pe \<sigma>) (co \<sigma>) - n \<and> cstate (co \<sigma>') \<noteq> Idle \<and>
      rx_view (pe \<sigma>') = rx_view (pe \<sigma>)"
    using assms(4,5)
  proof (induction n arbitrary: \<sigma>')
    case 0
    with assms(3) show ?case by simp
  next
    case (Suc n)
    then obtain \<rho> where \<rho>: "(lossless ^^ n) \<sigma> \<rho>" and l: "lossless \<rho> \<sigma>'"
      by (auto elim: relcomppE)
    from Suc.IH [OF _ \<rho>] Suc.prems(1) have
      i: "fresh_load (pe \<rho>) (co \<rho>) = fresh_load (pe \<sigma>) (co \<sigma>) - n" "cstate (co \<rho>) \<noteq> Idle"
        "rx_view (pe \<rho>) = rx_view (pe \<sigma>)"
      by simp_all
    have "reachable \<rho>" "quiet \<rho>"
      using lossless_run [OF assms(1,2) \<rho>] by simp_all
    from busy_exchange [OF this l i(2)] i Suc.prems(1) show ?case
      by simp
  qed
  then show ?thesis
    by (simp add: rx_view_def)
qed

text \<open>Both ends have a packet: the first exchange turns the coordinator to the peer.\<close>

lemma both_queued:
  "\<exists>\<sigma>. reachable \<sigma> \<and> quiet \<sigma> \<and> cstate (co \<sigma>) \<noteq> Idle \<and> 1 \<le> fresh_load (pe \<sigma>) (co \<sigma>)"
proof -
  obtain \<sigma> where e: "reachable \<sigma>" "quiet \<sigma>" "cstate (co \<sigma>) = Idle" "read_buffer (co \<sigma>) = [ping]"
    "\<not> tx_in_flight (pe \<sigma>)" "running (pe \<sigma>)" "pe_pc \<sigma> = Tunnel_loop"
    using ping_queued by blast
  have read: "TunnelThread_step None (pe_pc \<sigma>, pe \<sigma>) = (Tunnel_read, pe \<sigma>)"
    using e(6,7) by simp
  define \<sigma>0 where "\<sigma>0 = \<sigma>\<lparr>pe_pc := Tunnel_read\<rparr>"
  have "sys_step \<sigma> \<sigma>0"
    using sys_step.pe_tunnel [OF read] by (simp add: \<sigma>0_def queued_between_def)
  with e(1) have r0: "reachable \<sigma>0"
    by (rule reachable.step)
  define s where "s = tunnel_push ping (pe \<sigma>)"
  have "take kTunnelReadSize ping = ping"
    using ping(2) by (simp add: kTunnelReadSize_def)
  then have "TunnelThread_step (Some ping) (pe_pc \<sigma>0, pe \<sigma>0) = (Tunnel_throttle, s)"
    using ping(1) by (simp add: Let_def s_def \<sigma>0_def)
  note st = reachable.step [OF r0 sys_step.pe_tunnel [OF this]]
  obtain \<rho> where r: "reachable \<rho>" "quiet \<rho>" "co \<rho> = co \<sigma>" "pe \<rho> = s"
    by (rule that [OF st]) (use e(2) in \<open>simp_all add: quiet_def \<sigma>0_def\<close>)
  have s: "has_data s" "\<not> tx_in_flight s"
    using e(5) by (simp_all add: s_def tunnel_push_def has_data_def)
  have "link_wf s"
    using reachable_inv [OF r(1)] r(4) by (simp add: sys_inv_def)
  with s load_pos have left: "0 < fresh_load (pe \<rho>) (co \<rho>)"
    using r(4) by (auto simp: fresh_load_def accepted_def)
  obtain \<sigma>1 f \<sigma>2 g u \<sigma>' where l: "lossless \<rho> \<sigma>'" and ex: "exchanged \<rho> \<sigma>1 f \<sigma>2 g u \<sigma>'"
    using lossless_possible [OF r(1,2)] lossless_exchanged [OF r(1,2)] by metis
  then have f: "ftype f = Data" and g: "ftype g = response_type f (has_data u)"
    and c: "cstate (co \<sigma>') = Idle \<longleftrightarrow> ftype g = Ack"
    using e(3,4) r(3) by (auto simp: exchanged_def request_type_def has_data_def)
  have "has_data u"
    using exchange_loads(3) [OF r(1) ex] left by simp
  with f g have "ftype g = Pending"
    by (simp add: response_type_def)
  with exchange_loads(2) [OF r(1) ex] c left lossless_calm [OF r(1,2) l] show ?thesis
    by (intro exI [of _ \<sigma>']) simp
qed

theorem peer_is_served_first_witness:
  "\<exists>(\<sigma> :: system) \<sigma>'. lossless \<sigma> \<sigma>' \<and> fresh_load (pe \<sigma>) (co \<sigma>) = Suc (fresh_load (pe \<sigma>') (co \<sigma>')) \<and>
     last_rx_seq (pe \<sigma>') = last_rx_seq (pe \<sigma>)"
proof -
  obtain \<sigma> where e: "reachable \<sigma>" "quiet \<sigma>" "cstate (co \<sigma>) \<noteq> Idle" "1 \<le> fresh_load (pe \<sigma>) (co \<sigma>)"
    using both_queued by blast
  obtain \<sigma>' where l: "lossless \<sigma> \<sigma>'"
    using lossless_possible [OF e(1,2)] by blast
  then have "(lossless ^^ 1) \<sigma> \<sigma>'"
    by (simp add: eq_OO)
  from peer_is_served_first [OF e this] e(4) l show ?thesis
    by (intro exI [of _ \<sigma>] exI [of _ \<sigma>']) auto
qed

section \<open>Delivery in the long run\<close>

lemma four_exchanges:
  assumes "reachable \<sigma>" and "quiet \<sigma>" and "(lossless ^^ 4) \<sigma> \<sigma>'"
  shows "todo \<sigma>' \<le> todo \<sigma> - 1"
proof -
  have "todo \<sigma>' \<le> exchanges_left \<sigma>'" "exchanges_left \<sigma> \<le> todo \<sigma> + 3"
    by (auto simp: todo_def exchanges_left_def fresh_load_def)
  with lossless_run [OF assms] show ?thesis
    by linarith
qed

lemma nothing_todo:
  assumes "reachable \<sigma>" and "todo \<sigma> = 0"
  shows "waiting (co \<sigma>) (pe \<sigma>) = [] \<and> waiting (pe \<sigma>) (co \<sigma>) = []"
  using reachable_inv [OF assms(1)] assms(2) by (simp add: todo_def sys_inv_def nothing_fresh_waiting)

text \<open>A sequence that never grows and again and again falls, unless it is 0, reaches 0 and stays.\<close>

lemma falls_to_zero:
  fixes f :: "nat \<Rightarrow> nat"
  assumes mono: "\<And>i j. i \<le> j \<Longrightarrow> f j \<le> f i" and falls: "\<And>i. \<exists>j k. i \<le> j \<and> j \<le> k \<and> f k \<le> f j - 1"
  shows "\<exists>n. \<forall>m \<ge> n. f m = 0"
proof -
  obtain n where n: "f n \<le> f m" for m
    using arg_min_nat_le [of "\<lambda>_. True" _ f] by blast
  obtain j k where "n \<le> j" "j \<le> k" "f k \<le> f j - 1"
    using falls by blast
  with n [of k] mono [of n j] have "f n = 0"
    by linarith
  with mono show ?thesis
    by (metis le_zero_eq)
qed

text \<open>C4. Delivery on a lossy channel. Consider any infinite execution within a session in which
  the tunnels offer nothing more, while the channel goes on losing, delaying and repeating packets. If
  again and again there is a moment from which four exchanges in a row get through, then from some
  point on nothing is waiting at either end, and both tunnels have received exactly the valid IP
  packets that were waiting at the beginning, in order and once.\<close>

theorem delivery_under_loss:
  fixes run :: "nat \<Rightarrow> system"
  assumes "reachable (run 0)" and "\<And>i. calm\<^sup>*\<^sup>* (run i) (run (Suc i))"
    and "\<And>i. \<exists>j k. i \<le> j \<and> j \<le> k \<and> quiet (run j) \<and> (lossless ^^ 4) (run j) (run k)"
  shows "\<exists>n. \<forall>m \<ge> n.
    waiting (co (run m)) (pe (run m)) = [] \<and> waiting (pe (run m)) (co (run m)) = [] \<and>
    tun_out (pe (run m)) = tun_out (pe (run 0)) @ filter IsValidIpPacket (waiting (co (run 0)) (pe (run 0))) \<and>
    tun_out (co (run m)) = tun_out (co (run 0)) @ filter IsValidIpPacket (waiting (pe (run 0)) (co (run 0)))"
proof -
  have steps: "calm\<^sup>*\<^sup>* (run i) (run j)" if "i \<le> j" for i j
    using that by (induction rule: dec_induct) (auto intro: rtranclp_trans assms(2))
  note r = calm_run [OF assms(1) steps [of 0]]
  have up: "\<not> connection_reset_required (co (run i))" for i
    using assms(3) [of i] steps calm_in_session by (auto simp: quiet_def)
  have mono: "todo (run j) \<le> todo (run i)" if "i \<le> j" for i j
    using calm_run [OF _ steps [OF that]] r by blast
  have "\<exists>j k. i \<le> j \<and> j \<le> k \<and> todo (run k) \<le> todo (run j) - 1" for i
    using assms(3) [of i] four_exchanges r by blast
  with falls_to_zero [of "\<lambda>i. todo (run i)"] mono obtain n where n: "\<And>m. n \<le> m \<Longrightarrow> todo (run m) = 0"
    by blast
  have ses: "session (run i)" for i
    using reachable_inv r up by (auto simp: sys_inv_def)
  have "waiting (co (run m)) (pe (run m)) = [] \<and> waiting (pe (run m)) (co (run m)) = [] \<and>
      tun_out (pe (run m)) = tun_out (pe (run 0)) @ filter IsValidIpPacket (waiting (co (run 0)) (pe (run 0))) \<and>
      tun_out (co (run m)) = tun_out (co (run 0)) @ filter IsValidIpPacket (waiting (pe (run 0)) (co (run 0)))"
    if "n \<le> m" for m
  proof -
    have left: "waiting (co (run m)) (pe (run m)) = []" "waiting (pe (run m)) (co (run m)) = []"
      using nothing_todo n [OF that] r by blast+
    have "co_hist (run m) = co_hist (run 0)" "pe_hist (run m) = pe_hist (run 0)"
      using r by blast+
    with ses [of 0] ses [of m] have c:
      "lk.chan_inv (co_hist (run 0)) (co (run 0)) (pe (run 0)) (data_of (to_peer (run 0))) (acks_of (to_coord (run 0)))"
      "lk.chan_inv (co_hist (run 0)) (co (run m)) (pe (run m)) (data_of (to_peer (run m))) (acks_of (to_coord (run m)))"
      "lk.chan_inv (pe_hist (run 0)) (pe (run 0)) (co (run 0)) (data_of (to_coord (run 0))) (acks_of (to_peer (run 0)))"
      "lk.chan_inv (pe_hist (run 0)) (pe (run m)) (co (run m)) (data_of (to_coord (run m))) (acks_of (to_peer (run m)))"
      by (simp_all add: session_def)
    from delivered_since [OF c(1,2) left(1)] delivered_since [OF c(3,4) left(2)] left show ?thesis
      by simp
  qed
  then show ?thesis by blast
qed

text \<open>Such an execution: the exchanges of a session with a packet queued, one after the other.\<close>

lemma lossless_forever:
  assumes "reachable \<sigma>" and "quiet \<sigma>"
  shows "\<exists>(run :: nat \<Rightarrow> system). run 0 = \<sigma> \<and> (\<forall>i. reachable (run i) \<and> quiet (run i) \<and> lossless (run i) (run (Suc i)))"
proof -
  have "\<exists>run. \<forall>n. (reachable (run n) \<and> quiet (run n) \<and> (n = 0 \<longrightarrow> run n = \<sigma>)) \<and> lossless (run n) (run (Suc n))"
  proof (rule dependent_nat_choice)
    show "\<exists>\<rho>. reachable \<rho> \<and> quiet \<rho> \<and> (0 = (0 :: nat) \<longrightarrow> \<rho> = \<sigma>)"
      using assms by blast
    show "\<exists>\<rho>'. (reachable \<rho>' \<and> quiet \<rho>' \<and> (Suc n = 0 \<longrightarrow> \<rho>' = \<sigma>)) \<and> lossless \<rho> \<rho>'"
      if "reachable \<rho> \<and> quiet \<rho> \<and> (n = 0 \<longrightarrow> \<rho> = \<sigma>)" for \<rho> n
      using that lossless_possible lossless_calm by blast
  qed
  then show ?thesis by blast
qed

theorem delivery_under_loss_witness:
  "\<exists>(run :: nat \<Rightarrow> system) n. read_buffer (co (run 0)) = [ping] \<and> waiting (co (run n)) (pe (run n)) = [] \<and>
     tun_out (pe (run n)) = tun_out (pe (run 0)) @ filter IsValidIpPacket (waiting (co (run 0)) (pe (run 0)))"
proof -
  obtain \<sigma> where e: "reachable \<sigma>" "quiet \<sigma>" "read_buffer (co \<sigma>) = [ping]"
    using ping_queued by blast
  obtain run where run: "run 0 = \<sigma>" "\<And>i. reachable (run i)" "\<And>i. quiet (run i)"
      "\<And>i. lossless (run i) (run (Suc i))"
    using lossless_forever [OF e(1,2)] by blast
  have l: "(lossless ^^ n) (run i) (run (i + n))" for i n
    using run(4) by (induction n) (auto simp: relcompp_apply)
  have c: "calm\<^sup>*\<^sup>* (run i) (run (Suc i))" for i
    using lossless_calm run by blast
  have "\<exists>j k. i \<le> j \<and> j \<le> k \<and> quiet (run j) \<and> (lossless ^^ 4) (run j) (run k)" for i
    using run(3) [of i] l [where n = 4 and i = i] by (intro exI [of _ i] exI [of _ "i + 4"]) simp
  from delivery_under_loss [OF run(2) c this] e(3) run(1) show ?thesis
    by blast
qed

end
