(* ===== verification/System_Safety.thy ===== *)
theory System_Safety
  imports Link_System
begin

text \<open>
  What holds of both ends in every reachable state of the system, in a session or not and whatever
  packets arrive: only valid IP packets are written to the tunnels, and the queues stay bounded.
  Both follow from \<open>evolves\<close>, which every operation of the main threads satisfies.
\<close>

section \<open>What the main threads do to the tunnel and the queue\<close>

definition evolves :: "'a link_scheme \<Rightarrow> 'b link_scheme \<Rightarrow> bool" where
  "evolves s s' \<longleftrightarrow>
     (\<exists>ps. tun_out s' = tun_out s @ ps \<and> list_all IsValidIpPacket ps) \<and>
     length (read_buffer s') \<le> length (read_buffer s) \<and> running s' = running s"

lemma evolves_view:
  "evolves s t \<Longrightarrow> tx_view s' = tx_view t \<Longrightarrow> rx_view s' = rx_view t \<Longrightarrow> evolves s s'"
  by (simp add: evolves_def view_defs)

lemma evolves_from_view:
  "evolves s t \<Longrightarrow> tx_view s = tx_view u \<Longrightarrow> rx_view s = rx_view u \<Longrightarrow> evolves u t"
  by (simp add: evolves_def view_defs)

lemma evolves_refl [simp]: "evolves s s"
  by (simp add: evolves_def)

lemma evolves_trans: "evolves s t \<Longrightarrow> evolves t u \<Longrightarrow> evolves s u"
  by (auto simp: evolves_def)

lemma evolves_clear: "evolves s (clear_session s)"
  by (simp add: evolves_def clear_session_def)

lemma evolves_commit: "evolves s (CommitAckLocked a s)"
  by (auto simp: evolves_def frame_simps read_buffer_commit Let_def split: list.split)

lemma evolves_consume: "evolves s (snd (ConsumeDataFrameLocked f s))"
  by (auto simp: evolves_def ConsumeDataFrameLocked_def ResetRxAssemblyLocked_def WriteTunnel_def
      Let_def split: option.split)

lemma evolves_after: "evolves s (link_after f s)"
  using evolves_commit evolves_consume evolves_trans by (simp add: link_after_def) blast

lemma evolves_sends:
  assumes "sends f s s'"
  shows "evolves s s'"
proof -
  have "evolves s (in_flight s)"
    by (simp add: evolves_def frame_simps)
  with assms show ?thesis
    using evolves_view [of s "in_flight s" s'] evolves_view [of s s s']
    by (auto simp: sends_def split: if_splits)
qed

lemma Peer_step_evolves:
  assumes "Peer_step env s = Some s'" and wf: "link_wf s"
  shows "evolves s s'"
  using assms(1)
proof (cases rule: Peer_step_cases)
  case idle
  then show ?thesis
    using evolves_view evolves_refl by blast
next
  case (handled rx s0)
  have wf0: "link_wf s0"
    using wf link_wf_view [OF handled(3,4)] by simp
  have "evolves s0 s'"
  proof (cases "ftype rx = Reset")
    case True
    with handled(7) obtain ok where hr: "HandleReset (pe_send env) (RecordRx rx s0) = Some (ok, s')"
      by (auto simp: answer_request_def Let_def)
    have "evolves (RecordRx rx s0) s'"
      using evolves_view [OF evolves_clear HandleReset_views(1,2) [OF hr]] .
    then show ?thesis
      by (rule evolves_from_view) simp_all
  next
    case False
    from wf0 False handled(7) show ?thesis
    proof (cases rule: answer_request_cases)
      case refused
      then show ?thesis
        using evolves_view [OF evolves_after] by blast
    next
      case (answered tx p)
      then show ?thesis
        using evolves_trans [OF evolves_after evolves_sends] by blast
    qed
  qed
  then show ?thesis
    using handled(3,4) by (rule evolves_from_view)
qed

lemma reset_pass_evolves:
  assumes "Run_step env s = Some s'" and "connection_reset_required s" and "mode_ok s"
  shows "evolves s s'"
  using assms
  by (cases rule: reset_pass_cases)
    (use evolves_view [of s s s'] evolves_view [OF evolves_clear, of s' s] in auto)

lemma coordinator_request_evolves:
  assumes "link_wf s" and "mode_ok s" and "\<not> connection_reset_required s"
    and "coordinator_request env s = Some (tx, s')"
  shows "evolves s s'"
  by (rule coordinator_request_cases [OF assms]) (rule evolves_sends)

lemma coordinator_response_evolves:
  assumes "coordinator_response env tx s = Some (res, s')" and "mode_ok s"
  shows "evolves s s'"
  using assms
proof (cases rule: coordinator_response_cases)
  case timeout
  then show ?thesis using evolves_view evolves_refl by blast
next
  case (reply f)
  then show ?thesis using evolves_view [OF evolves_after] by blast
qed

section \<open>Every step of the system\<close>

text \<open>A step of the main thread, or one of the tunnel thread.\<close>

definition node_step :: "tunnel_pc \<times> 'a link_scheme \<Rightarrow> tunnel_pc \<times> 'a link_scheme \<Rightarrow> bool" where
  "node_step x x' \<longleftrightarrow>
     (fst x' = fst x \<and> evolves (snd x) (snd x')) \<or> (\<exists>input. TunnelThread_step input x = x')"

lemma sys_step_nodes:
  assumes "sys_inv \<sigma>" and "sys_step \<sigma> \<sigma>'"
  shows "node_step (co_pc \<sigma>, co \<sigma>) (co_pc \<sigma>', co \<sigma>') \<and> node_step (pe_pc \<sigma>, pe \<sigma>) (pe_pc \<sigma>', pe \<sigma>')"
  using assms(2,1)
  by cases (auto simp: node_step_def sys_inv_def
      intro: coordinator_request_evolves coordinator_response_evolves Peer_step_evolves
        reset_pass_evolves)

definition node_ok :: "tunnel_pc \<times> 'a link_scheme \<Rightarrow> bool" where
  "node_ok x \<longleftrightarrow> list_all IsValidIpPacket (tun_out (snd x)) \<and>
     length (read_buffer (snd x)) \<le> kMaxBufferedFrames + (if fst x \<in> {Tunnel_loop, Tunnel_read} then 0 else 1) \<and>
     running (snd x) \<and> fst x \<noteq> Tunnel_done"

lemma node_ok_step:
  assumes "node_ok x" and "node_step x x'"
  shows "node_ok x'"
proof -
  obtain pc s where x: "x = (pc, s)" by fastforce
  have "node_ok (TunnelThread_step input (pc, s))" for input
    using assms(1) x
    by (cases pc) (auto simp: node_ok_def Let_def tunnel_push_def frame_simps split: option.split)
  moreover have "node_ok x'" if "fst x' = pc" "evolves s (snd x')"
    using that assms(1) x by (auto simp: node_ok_def evolves_def)
  ultimately show ?thesis
    using assms(2) x by (auto simp: node_step_def)
qed

lemma reachable_nodes:
  "reachable \<sigma> \<Longrightarrow> node_ok (co_pc \<sigma>, co \<sigma>) \<and> node_ok (pe_pc \<sigma>, pe \<sigma>)"
proof (induction rule: reachable.induct)
  case start
  from main_Primary [OF start(1)] main_Secondary [OF start(2)] show ?case
    by (simp add: node_ok_def system_start_def fresh_def)
next
  case (step \<sigma> \<sigma>')
  note n = sys_step_nodes [OF reachable_inv [OF step.hyps(1)] step.hyps(2)]
  from step.IH node_ok_step [OF _ conjunct1 [OF n]] node_ok_step [OF _ conjunct2 [OF n]]
  show ?case by simp
qed

section \<open>Properties\<close>

text \<open>C9. Whatever arrives over the air, in or between sessions, every packet
  either end has written to its tunnel is one well-formed IPv4 or IPv6 packet of the announced
  length.\<close>

theorem tunnel_gets_ip_packets:
  assumes "reachable \<sigma>"
  shows "list_all ip_spec (tun_out (co \<sigma>)) \<and> list_all ip_spec (tun_out (pe \<sigma>))"
  using reachable_nodes [OF assms]
  by (auto simp: node_ok_def list_all_iff valid_eq_spec)

theorem tunnel_gets_ip_packets_witness:
  "\<exists>(\<sigma> :: system). reachable \<sigma> \<and> list_all ip_spec (tun_out (co \<sigma>))"
  using tunnel_gets_ip_packets reachable_start by blast

text \<open>C19. Neither queue ever holds more than 1025 packets: the tunnel threads stop
  reading until the queue is down to 1024, and the main threads only remove packets, even when a
  session is reset.\<close>

theorem queues_bounded:
  assumes "reachable \<sigma>"
  shows "length (read_buffer (co \<sigma>)) \<le> 1025 \<and> length (read_buffer (pe \<sigma>)) \<le> 1025"
  using reachable_nodes [OF assms]
  by (auto simp: node_ok_def kMaxBufferedFrames_def split: if_splits)

theorem queues_bounded_witness:
  "\<exists>(\<sigma> :: system). reachable \<sigma> \<and> length (read_buffer (co \<sigma>)) \<le> 1025"
  using queues_bounded reachable_start by blast

end
