(* ===== verification/Air_Types.thy ===== *)
theory Air_Types
  imports System_Safety
begin

text \<open>
  The types of the wire protocol: what kinds of packets either node ever puts in the air, in a session
  or not, whatever it received before. A node that follows the program never has to deal with a packet
  outside these types.
\<close>

section \<open>Well-typed packets\<close>

definition data_typed :: "MacFrame \<Rightarrow> bool" where
  "data_typed f \<longleftrightarrow>
     (if ftype f = Data
      then seq_ok (seq f) \<and> 0 < arg f \<and> length (payload f) = min (unat (arg f)) kMaxPayloadSize
      else payload f = [])"

text \<open>A packet of one of the kinds a node may send: a RESET packet, or a frame that satisfies \<open>role\<close>.\<close>

definition packet_typed :: "(MacFrame \<Rightarrow> bool) \<Rightarrow> bytes \<Rightarrow> bool" where
  "packet_typed role p \<longleftrightarrow>
     length p = kMaxPacketSize \<and>
     (p = reset_packet \<or>
      (case DecodeMacFrame p of None \<Rightarrow> False | Some f \<Rightarrow> role f \<and> data_typed f))"

lemma reset_packet_typed [simp]: "packet_typed role reset_packet"
  by (simp add: packet_typed_def reset_packet_def)

lemma only_resets_typed:
  "only_resets (xs @ ys) \<Longrightarrow> list_all (packet_typed role) xs \<and> list_all (packet_typed role') ys"
  unfolding only_resets_def list_all_iff by (metis Un_iff set_append reset_packet_typed)

lemma sends_typed:
  assumes "sends f s s'" and wf: "link_wf s" and p: "DecodeMacFrame p = Some f" and "role f"
  shows "packet_typed role p"
proof -
  have len: "length p = 32" "length (payload f) = (if ftype f = Data then min (unat (arg f)) 27 else 0)"
    using p unat_min_27 by (auto simp: DecodeMacFrame_eq Let_def split: if_splits)
  have "seq_ok (seq f) \<and> 0 < arg f" if d: "ftype f = Data"
  proof -
    from assms(1) d have hd: "has_data s" and
      f: "seq f = next_tx_seq s" "payload f = tx_inflight_payload (in_flight s)"
      by (simp_all add: sends_def tx_fragment_def)
    have "link_wf (in_flight s)" "tx_in_flight (in_flight s)"
      using link_wf_start [OF wf hd] by (simp_all add: in_flight_def)
    then have "tx_inflight_payload (in_flight s) \<noteq> []"
      by (cases "read_buffer (in_flight s)") (auto simp: link_wf_def)
    then have "0 < arg f"
      using f(2) len(2) d by (auto simp: word_gt_0)
    with f(1) wf show ?thesis
      by (simp add: link_wf_def)
  qed
  with len p assms(4) show ?thesis
    by (auto simp: packet_typed_def data_typed_def)
qed

section \<open>The packets of a step\<close>

lemma coordinator_request_typed:
  assumes "link_wf s" and "mode_ok s" and "\<not> connection_reset_required s"
    and "coordinator_request env s = Some (tx, s')"
  shows "list_all (packet_typed request_ok) (sent_between s s')"
  by (rule coordinator_request_cases [OF assms]) (use assms(1) in \<open>simp add: sends_typed\<close>)

lemma reset_pass_typed:
  assumes "Run_step env s = Some s'" and "connection_reset_required s" and "mode_ok s"
  shows "list_all (packet_typed role) (sent_between s s')"
  using assms by (cases rule: reset_pass_cases) simp_all

lemma Peer_step_typed:
  assumes "Peer_step env s = Some s'" and wf: "link_wf s"
  shows "list_all (packet_typed peer_frame_ok) (sent_between s s')"
  using assms(1)
proof (cases rule: Peer_step_cases)
  case idle
  then show ?thesis by (simp add: sent_between_def)
next
  case (handled rx s0)
  have wf0: "link_wf s0"
    using wf link_wf_view [OF handled(3,4)] by simp
  show ?thesis
  proof (cases "ftype rx = Reset")
    case True
    with handled(7) obtain ok where hr: "HandleReset (pe_send env) (RecordRx rx s0) = Some (ok, s')"
      by (auto simp: answer_request_def Let_def)
    from HandleReset_views(3) [OF hr] handled(6) show ?thesis
      by (simp add: sent_between_def)
  next
    case False
    from wf0 False handled(7) show ?thesis
    proof (cases rule: answer_request_cases)
      case refused
      then show ?thesis
        using handled(6) by (simp add: sent_between_def)
    next
      case (answered tx p)
      then show ?thesis
        using handled(6) sends_typed [where role = peer_frame_ok, OF answered(4) link_wf_after [OF wf0] answered(2,3)]
        by (simp add: sent_between_def)
    qed
  qed
qed

lemma reachable_typed:
  "reachable \<sigma> \<Longrightarrow> list_all (packet_typed request_ok) (to_peer \<sigma>) \<and>
     list_all (packet_typed peer_frame_ok) (to_coord \<sigma>)"
proof (induction rule: reachable.induct)
  case (start k hw gpio args calls su c)
  then show ?case by (simp add: system_start_def)
next
  case (step \<sigma> \<sigma>')
  have inv: "link_wf (co \<sigma>)" "link_wf (pe \<sigma>)" "mode_ok (co \<sigma>)"
    using reachable_inv [OF step.hyps(1)] by (simp_all add: sys_inv_def)
  from step.hyps(2) step.IH inv show ?case
    by cases (simp_all add: coordinator_request_typed reset_pass_typed Peer_step_typed only_resets_typed)
qed

section \<open>Properties\<close>

text \<open>C11. In every reachable state every packet in the air is 32 bytes long and of
  one of these types: towards the peer, a RESET or a DATA, GRANT or PENDING frame; towards the
  coordinator, a RESET, an ACK that announces nothing, or a DATA or PENDING frame that announces more
  data. DATA frames have a sequence number from 1 to 31 and carry as many bytes as the remaining
  length and the frame allow, at least one; all others carry none.\<close>

theorem air_traffic_typed:
  assumes "reachable \<sigma>"
  shows "list_all (packet_typed request_ok) (to_peer \<sigma>) \<and>
    list_all (packet_typed peer_frame_ok) (to_coord \<sigma>)"
  using reachable_typed [OF assms] .

theorem air_traffic_typed_witness:
  "\<exists>(\<sigma> :: system). reachable \<sigma> \<and> list_all (packet_typed request_ok) (to_peer \<sigma>)"
  using air_traffic_typed reachable_start by blast

end
