(* ===== verification/Timing.thy ===== *)
theory Timing
  imports Coordinator_Run Peer
begin

text \<open>
  \<open>nerfnet/util/time.cc\<close>: \<open>TimeNowUs\<close> and \<open>SleepUs\<close>, and the places where their conversions matter:
  the deadlines \<open>TimeNowUs() + timeout\<close> and the argument of \<open>usleep\<close>, which has 32 bits. On a clock
  that reaches the deadlines, every pass of a main loop returns.
\<close>

section \<open>Clock and sleep\<close>

text \<open>
  The steady clock counts nanoseconds in a signed 64-bit integer; \<open>duration_cast\<close> to microseconds
  divides towards zero, and the count becomes a \<open>uint64_t\<close>.
\<close>

definition TimeNowUs :: "int \<Rightarrow> u64" where
  "TimeNowUs nanoseconds =
     word_of_int (if 0 \<le> nanoseconds then nanoseconds div 1000 else - ((- nanoseconds) div 1000))"

text \<open>The argument with which \<open>SleepUs\<close> calls \<open>usleep\<close>: \<open>useconds_t\<close> is an unsigned 32-bit type.\<close>

definition SleepUs :: "u64 \<Rightarrow> u32" where
  "SleepUs delay = ucast delay"

lemma TimeNowUs_exact:
  assumes "0 \<le> ns" and "ns < 2 ^ 63"
  shows "uint (TimeNowUs ns) = ns div 1000"
proof -
  have "0 \<le> ns div 1000" "ns div 1000 < 2 ^ 64"
    using assms by auto
  then show ?thesis
    using assms(1) by (simp add: TimeNowUs_def uint_word_of_int)
qed

lemma short_sleep_exact:
  assumes "short_sleep (Sleep t)"
  shows "unat (SleepUs t) = unat t"
proof -
  have "unat t \<le> 20000"
    using assms by (simp add: word_le_nat_alt)
  then show ?thesis
    by (simp add: SleepUs_def unsigned_ucast_eq take_bit_nat_eq_self)
qed

section \<open>Every pass returns\<close>

text \<open>A clock that reaches the deadline of a transmission, or a device that is done before.\<close>

definition sends_in_time :: "send_env \<Rightarrow> bool" where
  "sends_in_time env \<longleftrightarrow>
     (\<exists>n. fst (standby env n) \<or> send_start env + kTxStandbyTimeoutUs \<le> snd (standby env n))"

text \<open>A clock that passes the deadline of a response.\<close>

definition waits_in_time :: "recv_env \<Rightarrow> bool" where
  "waits_in_time env \<longleftrightarrow> recv_start env + kResponseTimeoutUs \<noteq> 0 \<and>
     (\<exists>n. recv_start env + kResponseTimeoutUs < now (recv_obs env n))"

text \<open>Stated as rewrite rules: the value \<open>None\<close> is excluded.\<close>

lemma Send_returns:
  assumes "sends_in_time env"
  shows "Send env request s = None \<longleftrightarrow> False"
proof -
  from assms obtain n where
    "fst (standby env n) \<or> send_start env + kTxStandbyTimeoutUs \<le> snd (standby env n)"
    unfolding sends_in_time_def ..
  then have "standby_body (standby env) (send_start env + kTxStandbyTimeoutUs) n \<noteq> None"
    by (auto simp: standby_body_def)
  then have "\<exists>ok. first_some (standby_body (standby env) (send_start env + kTxStandbyTimeoutUs)) 0 = Some ok"
    by (rule first_some_total)
  then show ?thesis
    by (auto simp: Send_def Let_def split: option.split)
qed

lemma Receive_returns:
  assumes "waits_in_time env"
  shows "Receive env buffer kResponseTimeoutUs s = None \<longleftrightarrow> False"
proof -
  from assms obtain n where "recv_start env + kResponseTimeoutUs \<noteq> 0"
      "recv_start env + kResponseTimeoutUs < now (recv_obs env n)"
    by (auto simp: waits_in_time_def)
  then obtain res where
    "WaitForRxReady env (irq_line (dev StartListening s) \<noteq> None) kResponseTimeoutUs = Some res"
    using WaitForRxReady_returns [of kResponseTimeoutUs env n] by (auto simp: kResponseTimeoutUs_def)
  then show ?thesis
    by (simp add: Receive_def Let_def)
qed

lemma PerformExchange_returns:
  assumes "sends_in_time (x_send env)" and "waits_in_time (x_recv env)"
  shows "PerformExchange env s = None \<longleftrightarrow> False"
proof -
  have "exchange_request (x_send env) u = None \<longleftrightarrow> False" for u
    by (simp add: exchange_request_def Let_def Send_returns [OF assms(1)] split: option.split prod.split)
  moreover have "exchange_response (x_recv env) tx u = None \<longleftrightarrow> False" for tx u
    by (simp add: exchange_response_def Receive_returns [OF assms(2)] split: option.split prod.split)
  ultimately show ?thesis
    by (simp add: PerformExchange_def split: option.split sum.split)
qed

lemma ConnectionReset_returns:
  assumes "sends_in_time (x_send env)" and "waits_in_time (x_recv env)"
  shows "ConnectionReset env s = None \<longleftrightarrow> False"
  by (auto simp: ConnectionReset_def Let_def encode_reset_frame Send_returns [OF assms(1)]
      Receive_returns [OF assms(2)] split: option.splits if_splits)

lemma answer_returns:
  assumes "sends_in_time env"
  shows "answer_request env t rx p = None \<longleftrightarrow> False"
proof (cases "ftype rx = Reset")
  case True
  then show ?thesis
    by (auto simp: answer_request_def HandleReset_def Let_def Send_returns [OF assms]
        split: option.splits if_splits)
next
  case False
  obtain r u where r: "prepare_response rx (RecordRx rx p) = (r, u)"
    by fastforce
  show ?thesis
  proof (cases r)
    case (Some txr)
    obtain result v where "Send env (snd txr) u = Some (result, v)"
      using Send_returns [OF assms, of "snd txr" u] by auto
    with False r Some show ?thesis
      by (cases txr) (simp add: answer_request_def Let_def)
  qed (use False r in \<open>simp add: answer_request_def Let_def\<close>)
qed

section \<open>Properties\<close>

text \<open>C31. Every pass returns. On a clock that reaches the deadlines, a pass of the
  coordinator returns whatever the radio and the interrupt line do; a pass of the peer, which waits
  without a timeout, returns if and only if its wait ends, which without an interrupt line means that a
  packet becomes available.\<close>

theorem passes_return:
  assumes "sends_in_time (x_send (run_exchange env))" and "waits_in_time (x_recv (run_exchange env))"
    and "sends_in_time (pe_send penv)"
  shows "(\<exists>s'. Run_step env s = Some s') \<and>
    ((\<exists>p'. Peer_step penv p = Some p') \<longleftrightarrow>
       (if irq_line p = None then \<exists>n. available (recv_obs (pe_recv penv) n)
        else \<exists>res. WaitForRxReady (pe_recv penv) True 0 = Some res))"
proof -
  have "Run_step env s = None \<longleftrightarrow> False"
    by (simp add: Run_step_def Let_def PerformExchange_returns [OF assms(1,2)]
        ConnectionReset_returns [OF assms(1,2)] split: option.split prod.split)
  moreover have "Peer_step penv p = None \<longleftrightarrow> WaitForRxReady (pe_recv penv) (irq_line p \<noteq> None) 0 = None"
    by (simp add: Peer_step_def Receive_def Let_def dev_def answer_returns [OF assms(3)]
        split: option.split prod.split del: not_None_eq)
  ultimately show ?thesis
    using blocking_wait [of "pe_recv penv"] by (cases "irq_line p") auto
qed

text \<open>A coordinator and a peer on a clock that advances by 60 ms per observation.\<close>

theorem passes_return_witness:
  "\<exists>env s'. x_recv (run_exchange env) = \<lparr>recv_start = 5, recv_obs = (\<lambda>i. \<lparr>available = False,
       now = of_nat i * 60000, line_wait = (\<lambda>t. Wait_error True), line_read = Read_ok\<rparr>), rx_fifo = []\<rparr> \<and>
     Run_step env start_coordinator = Some s'"
proof -
  let ?recv = "\<lparr>recv_start = 5, recv_obs = (\<lambda>i. \<lparr>available = False, now = of_nat i * 60000,
       line_wait = (\<lambda>t. Wait_error True), line_read = Read_ok\<rparr>), rx_fifo = []\<rparr>"
  let ?env = "deaf_env\<lparr>run_exchange := \<lparr>x_send = good_send, x_recv = ?recv\<rparr>\<rparr>"
  have "sends_in_time good_send"
    by (simp add: sends_in_time_def good_send_def)
  moreover have "waits_in_time ?recv"
    by (auto simp: waits_in_time_def kResponseTimeoutUs_def intro!: exI [of _ 2])
  ultimately have "\<exists>s'. Run_step ?env start_coordinator = Some s'"
    using passes_return [of ?env "\<lparr>pe_recv = ?recv, pe_send = good_send, pe_stat_now = 0\<rparr>"
        start_coordinator start_peer] by simp
  then show ?thesis
    by (intro exI [of _ ?env]) simp
qed

text \<open>As long as the steady clock is not negative, \<open>TimeNowUs\<close> is the number
  of microseconds and never runs backwards, and no deadline of the program wraps around: the 100 ms a
  coordinator waits for a response, the 20 ms of the transmit standby, and every retry time, for the
  next 200,000 years.\<close>

lemma deadlines_do_not_wrap:
  assumes "0 \<le> ns" and "ns \<le> ns'" and "ns' < 2 ^ 63"
  shows "TimeNowUs ns \<le> TimeNowUs ns' \<and>
    uint (TimeNowUs ns' + kResponseTimeoutUs) = ns' div 1000 + 100000 \<and>
    uint (TimeNowUs ns' + kTxStandbyTimeoutUs) = ns' div 1000 + 20000 \<and>
    (unat b \<le> 1000000 \<longrightarrow> uint (TimeNowUs ns' + b) = ns' div 1000 + uint b)"
proof -
  have exact: "uint (TimeNowUs ns) = ns div 1000" "uint (TimeNowUs ns') = ns' div 1000"
    by (intro TimeNowUs_exact; use assms in linarith)+
  then have "TimeNowUs ns \<le> TimeNowUs ns'"
    using assms(2) by (simp add: word_le_def zdiv_mono1)
  moreover have sum: "uint (TimeNowUs ns' + c) = ns' div 1000 + uint c" if "unat c \<le> 1000000" for c :: u64
  proof -
    have "uint c \<le> 1000000"
      using that uint_nat [of c] by linarith
    moreover have "0 \<le> ns'"
      using assms(1,2) by (rule order_trans)
    then have "ns' div 1000 \<le> ns'"
      using int_div_less_self [of ns' 1000] by (cases "ns' = 0") simp_all
    then have "ns' div 1000 < 2 ^ 63"
      using assms(3) by (rule le_less_trans)
    ultimately have "uint (TimeNowUs ns') + uint c < 2 ^ LENGTH(64)"
      using exact(2) by simp
    then show ?thesis
      using exact(2) uint_add_lem [of "TimeNowUs ns'" c] by metis
  qed
  ultimately show ?thesis
    using sum [of kResponseTimeoutUs] sum [of kTxStandbyTimeoutUs] sum [of b]
    by (simp add: kResponseTimeoutUs_def kTxStandbyTimeoutUs_def)
qed

text \<open>Every sleep of a pass of either main loop or of a tunnel thread lasts at most
  20 ms, so the conversion of the 64-bit delay to the 32-bit argument of \<open>usleep\<close> loses nothing, and
  the delay is below the million microseconds that \<open>usleep\<close> may refuse.\<close>

lemma sleeps_are_exact:
  "(Run_step env s = Some s' \<longrightarrow> (\<exists>ops. dev_ops s' = dev_ops s @ ops \<and>
      (\<forall>t. Sleep t \<in> set ops \<longrightarrow> unat t \<le> 20000 \<and> unat (SleepUs t) = unat t))) \<and>
    (Peer_step penv p = Some p' \<longrightarrow> (\<exists>ops. dev_ops p' = dev_ops p @ ops \<and>
      (\<forall>t. Sleep t \<in> set ops \<longrightarrow> unat t \<le> 20000 \<and> unat (SleepUs t) = unat t))) \<and>
    (TunnelThread_step input (pc, l) = (pc', l') \<longrightarrow> (\<exists>ops. dev_ops l' = dev_ops l @ ops \<and>
      (\<forall>t. Sleep t \<in> set ops \<longrightarrow> unat t \<le> 20000 \<and> unat (SleepUs t) = unat t)))"
proof -
  have short: "\<forall>t. Sleep t \<in> set ops \<longrightarrow> unat t \<le> 20000 \<and> unat (SleepUs t) = unat t"
    if "list_all short_sleep ops" for ops
    using that short_sleep_exact by (auto simp: list_all_iff word_le_nat_alt)
  have "\<exists>ops. dev_ops l' = dev_ops l @ ops \<and> list_all short_sleep ops"
    if "TunnelThread_step input (pc, l) = (pc', l')"
    using that by (cases pc)
      (auto simp: Let_def tunnel_push_def dev_def split: if_splits option.splits)
  moreover have "\<exists>ops. dev_ops s' = dev_ops s @ ops \<and> list_all short_sleep ops"
    if "Run_step env s = Some s'"
    using Run_clean [OF that] by (auto simp: clean_use_def)
  moreover have "\<exists>ops. dev_ops p' = dev_ops p @ ops \<and> list_all short_sleep ops"
    if "Peer_step penv p = Some p'"
    using Peer_step_ops [OF that] by blast
  ultimately show ?thesis
    using short by blast
qed

end
