(* ===== verification/Messages.thy ===== *)
theory Messages
  imports Node_Start
begin

text \<open>
  The lines that \<open>RadioInterface\<close> and \<open>main\<close> print, and the macros of \<open>util/log.h\<close>. Printing changes no
  state, so for each operation there is a definition beside it that follows its branches and gives the
  lines, in order. A failed system call adds \<open>strerror(errno)\<close> and \<open>errno\<close>, which are arguments
  (\<open>sys_error\<close>). \<open>failures_are_logged\<close> counts the error lines of every failure, and names the one that
  leaves none.
\<close>

section \<open>Lines\<close>

definition LOG :: "char \<Rightarrow> string \<Rightarrow> string" where
  "LOG code message = [code] @ '': '' @ message @ [CHR 0x0A]"

definition LOGV :: "string \<Rightarrow> string" where "LOGV = LOG (CHR ''V'')"
definition LOGI :: "string \<Rightarrow> string" where "LOGI = LOG (CHR ''I'')"
definition LOGW :: "string \<Rightarrow> string" where "LOGW = LOG (CHR ''W'')"
definition LOGE :: "string \<Rightarrow> string" where "LOGE = LOG (CHR ''E'')"

text \<open>The directives \<open>%u\<close>, \<open>%zu\<close> and \<open>%llu\<close>, and \<open>%s (%d)\<close> for an error of the system.\<close>

definition show_word :: "'a::len word \<Rightarrow> string" where
  "show_word w = decimal_nat (unat w)"

type_synonym sys_error = "string \<times> int"

definition show_error :: "sys_error \<Rightarrow> string" where
  "show_error e = fst e @ '' ('' @ decimal (snd e) @ '')''"

text \<open>Whether a line is an error.\<close>

definition is_error :: "string \<Rightarrow> bool" where
  "is_error line \<longleftrightarrow> take 3 line = ''E: ''"

lemma is_error_simps [simp]: "is_error (LOGE m)" "\<not> is_error (LOGI m)"
  by (simp_all add: is_error_def LOGE_def LOGI_def LOG_def)

text \<open>How many lines are errors.\<close>

definition errors :: "string list \<Rightarrow> nat" where
  "errors lines = length (filter is_error lines)"

lemma errors_simps [simp]:
  "errors [] = 0" "errors (LOGE m # lines) = Suc (errors lines)" "errors (LOGI m # lines) = errors lines"
  "errors (xs @ ys) = errors xs + errors ys"
  by (simp_all add: errors_def)

text \<open>\<open>CHECK_OK\<close>, with what the status answers to \<open>ok()\<close> and \<open>ToString()\<close>.\<close>

definition CHECK_OK :: "bool \<Rightarrow> string \<Rightarrow> string \<Rightarrow> string + unit" where
  "CHECK_OK status_ok status_text message = CHECK status_ok (message @ '': '' @ status_text)"

section \<open>Frames and packets\<close>

definition EncodeMacFrame_log :: "MacFrame \<Rightarrow> string list" where
  "EncodeMacFrame_log frame =
     (if length (payload frame) > kMaxPayloadSize
      then [LOGE (''Payload too large ('' @ decimal_nat (length (payload frame)) @ '' > '' @
              decimal_nat kMaxPayloadSize @ '')'')]
      else [])"

definition DecodeMacFrame_log :: "bytes \<Rightarrow> string list" where
  "DecodeMacFrame_log packet =
     (if length packet \<noteq> kMaxPacketSize then [LOGE ''Received short packet''] else [])"

text \<open>\<open>write_error\<close> is \<open>None\<close> if \<open>write\<close> to the tunnel succeeds.\<close>

definition WriteTunnel_log :: "sys_error option \<Rightarrow> 'a link_scheme \<Rightarrow> string list" where
  "WriteTunnel_log write_error s =
     (if tunnel_logs_enabled s
      then [LOGI (''Writing '' @ decimal_nat (length (frame_buffer s)) @ '' bytes to tunnel'')]
      else []) @
     (if \<not> IsValidIpPacket (frame_buffer s)
      then [LOGE (''Dropping invalid reassembled IP packet len='' @
              decimal_nat (length (frame_buffer s)))]
      else case write_error of
        None \<Rightarrow> []
      | Some e \<Rightarrow> [LOGE (''Failed to write to tunnel '' @ show_error e)])"

definition ConsumeDataFrameLocked_log ::
  "sys_error option \<Rightarrow> MacFrame \<Rightarrow> 'a link_scheme \<Rightarrow> string list" where
  "ConsumeDataFrameLocked_log write_error frame s =
     (let append =
        (let s = s\<lparr>last_rx_seq := Some (seq frame),
                   frame_buffer := frame_buffer s @ payload frame\<rparr>
         in if payload frame \<noteq> [] \<and> unat (arg frame) \<le> kMaxPayloadSize
            then WriteTunnel_log write_error s else [])
      in
      if ftype frame \<noteq> Data then []
      else if seq frame = 0 then [LOGE ''DATA frame missing seq'']
      else case last_rx_seq s of
        Some prev \<Rightarrow>
          (if seq frame = prev then []
           else if seq frame \<noteq> NextSeq prev
           then [LOGE (''Received unexpected DATA seq='' @ show_word (seq frame) @ '' expected='' @
                   show_word (NextSeq prev) @ '' last='' @ show_word prev)]
           else append)
      | None \<Rightarrow> append)"

text \<open>One step of the tunnel thread; \<open>read_error\<close> counts if \<open>read\<close> fails.\<close>

fun TunnelThread_log ::
  "sys_error \<Rightarrow> bytes option \<Rightarrow> tunnel_pc \<times> 'a link_scheme \<Rightarrow> string list" where
  "TunnelThread_log read_error input (Tunnel_read, s) =
     (case input of
        None \<Rightarrow> [LOGE (''Failed to read: '' @ show_error read_error)]
      | Some bs \<Rightarrow>
          (let packet = take kTunnelReadSize bs in
           if \<not> IsValidIpPacket packet
           then [LOGE (''Dropping non-IP or malformed tunnel packet len='' @ decimal_nat (length packet))]
           else if tunnel_logs_enabled s
           then [LOGI (''Read '' @ decimal_nat (length packet) @ '' bytes from tunnel'')]
           else []))"
| "TunnelThread_log _ _ _ = []"

section \<open>The radio\<close>

definition RecoverAfterTransmitFailure_log :: "string \<Rightarrow> string list" where
  "RecoverAfterTransmitFailure_log stage = [LOGE (''TX recovery after '' @ stage @ '' failure'')]"

definition Send_log :: "send_env \<Rightarrow> bytes \<Rightarrow> string list" where
  "Send_log env request =
     (if length request > kMaxPacketSize
      then [LOGE (''Request is too large ('' @ decimal_nat (length request) @ '' vs '' @
              decimal_nat kMaxPacketSize @ '')'')]
      else if \<not> write_ok env
      then LOGE ''Failed to write request'' # RecoverAfterTransmitFailure_log ''write''
      else if first_some (standby_body (standby env) (send_start env + kTxStandbyTimeoutUs)) 0
        = Some False
      then LOGE ''Timed out waiting for TX standby'' # RecoverAfterTransmitFailure_log ''txStandBy''
      else [])"

text \<open>
  The line a pass of the interrupt loop ends with, if it ends the loop; \<open>errs i\<close> is \<open>errno\<close> in pass \<open>i\<close>.
\<close>

definition irq_line_log ::
  "(nat \<Rightarrow> rx_obs) \<Rightarrow> (nat \<Rightarrow> sys_error) \<Rightarrow> string \<Rightarrow> u64 \<Rightarrow> nat \<Rightarrow> string list option" where
  "irq_line_log obs errs where_text deadline_us i =
     (let expired = Some [LOGE ''Timeout receiving response''] in
      if available (obs i) then Some []
      else if deadline_us \<noteq> 0 \<and> now (obs i) \<ge> deadline_us then expired
      else
        let timeout = (if deadline_us \<noteq> 0 then Some (timespec_of (deadline_us - now (obs i)))
                       else None)
        in case line_wait (obs i) timeout of
             Wait_error eintr \<Rightarrow>
               (if eintr then None
                else Some [LOGE (''IRQ wait failed on '' @ where_text @ '': '' @ show_error (errs i))])
           | Wait_timeout \<Rightarrow> expired
           | Wait_event \<Rightarrow>
               (case line_read (obs i) of
                  Read_error eintr \<Rightarrow>
                    (if eintr then None
                     else Some [LOGE (''Failed to read IRQ event on '' @ where_text @ '': '' @
                                  show_error (errs i))])
                | Read_ok \<Rightarrow> None))"

definition irq_where :: "'a link_scheme \<Rightarrow> string" where
  "irq_where s = resolved_irq_chip_name s @ '' line '' @ show_word (resolved_irq_line_offset s)"

text \<open>A wait that never ends prints nothing.\<close>

definition WaitForRxReady_log ::
  "recv_env \<Rightarrow> (nat \<Rightarrow> sys_error) \<Rightarrow> u64 \<Rightarrow> 'a link_scheme \<Rightarrow> string list" where
  "WaitForRxReady_log env errs timeout_us s =
     (if irq_line s = None then
        (case first_some (poll_body (recv_obs env) (recv_start env) timeout_us) 0 of
           Some Timeout \<Rightarrow> [LOGE ''Timeout receiving response'']
         | _ \<Rightarrow> [])
      else
        let deadline_us = (if timeout_us = 0 then 0 else recv_start env + timeout_us) in
        (case first_some (irq_line_log (recv_obs env) errs (irq_where s) deadline_us) 0 of
           None \<Rightarrow> []
         | Some lines \<Rightarrow> lines))"

definition InitializeIrq_log :: "gpio_sys \<Rightarrow> sys_error \<Rightarrow> 'a link_scheme \<Rightarrow> string list" where
  "InitializeIrq_log sys e s =
     (let pin = decimal (irq_pin s) in
      if irq_pin s < 0 then []
      else case ResolveIrqTarget sys (irq_pin s) of
        Inl _ \<Rightarrow> []
      | Inr None \<Rightarrow> [LOGE (''Failed to resolve IRQ pin '' @ pin @ '' to a gpiochip line'')]
      | Inr (Some target) \<Rightarrow>
          let name = target_chip_name target; offset = line_offset target in
          if \<not> open_by_name sys name then
            [LOGE (''Failed to open gpiochip '' @ name @ '' for IRQ pin '' @ pin @ '': '' @ show_error e)]
          else if \<not> get_line sys name offset then
            [LOGE (''Failed to get gpiochip line '' @ show_word offset @ '' on '' @ name @
               '' for IRQ pin '' @ pin @ '': '' @ show_error e)]
          else if \<not> request_events sys name offset then
            [LOGE (''Failed to request falling-edge IRQ events on '' @ name @ '' line '' @
               show_word offset @ '': '' @ show_error e)]
          else if global_gpio target \<ge> 0 then
            [LOGI (''RX IRQ enabled on '' @ name @ '' line '' @ show_word offset @ '' (requested '' @ pin @
               '', global GPIO '' @ decimal (global_gpio target) @ '')'')]
          else
            [LOGI (''RX IRQ enabled on '' @ name @ '' line '' @ show_word offset @ '' (requested '' @ pin @
               '')'')])"

section \<open>The constructor and \<open>main\<close>\<close>

definition RadioInterface_log :: "gpio_sys \<Rightarrow> sys_error \<Rightarrow> int \<Rightarrow> string list" where
  "RadioInterface_log sys e irq =
     (let s = RadioInterface_init irq in
      if irq_pin s \<ge> 0 then
        InitializeIrq_log sys e s @
        (case InitializeIrq sys s of
           Inr (False, _, _) \<Rightarrow>
             [LOGE (''Falling back to RX polling because IRQ setup failed for pin '' @ decimal irq)]
         | _ \<Rightarrow> [])
      else [])"

definition quoted :: "string \<Rightarrow> string" where
  "quoted x = CHR 0x27 # x @ [CHR 0x27]"

text \<open>The messages of the checks; an exception is not one of them.\<close>

fun fatal_message :: "sys_error \<Rightarrow> fatal \<Rightarrow> string" where
  "fatal_message e Open_tunnel_failed = ''Failed to open tunnel file: '' @ show_error e"
| "fatal_message e Set_interface_failed = ''Failed to set tunnel interface: '' @ show_error e"
| "fatal_message e Socket_failed = ''Failed to open socket: '' @ show_error e"
| "fatal_message e Assign_ip_failed = ''Failed to assign IP address: '' @ show_error e"
| "fatal_message e Set_ip_failed = ''Failed to set tunnel interface ip: '' @ show_error e"
| "fatal_message e Assign_mask_failed = ''Failed to assign IP mask: '' @ show_error e"
| "fatal_message e Set_mask_failed = ''Failed to set tunnel interface mask: '' @ show_error e"
| "fatal_message e (Invalid_data_rate value) =
     ''Invalid --rf_data_rate '' @ quoted value @ '' (expected 250kbps, 1mbps, or 2mbps)''"
| "fatal_message e (Invalid_crc value) = ''Invalid --rf_crc '' @ quoted value @ '' (expected 8 or 16)''"
| "fatal_message e Bad_retry_delay = ''--rf_retry_delay must be between 0 and 15''"
| "fatal_message e Bad_retry_count = ''--rf_retry_count must be between 0 and 15''"
| "fatal_message e Bad_channel = ''Channel must be between 0 and 127''"
| "fatal_message e Radio_not_started = ''Failed to start NRF24L01''"
| "fatal_message e Radio_unavailable = ''NRF24L01 is unavailable''"
| "fatal_message e No_mode = ''Primary or secondary mode must be enabled''"
| "fatal_message e (Uncaught x) = []"

definition fatal_log :: "sys_error \<Rightarrow> fatal \<Rightarrow> string list" where
  "fatal_log e f =
     (case f of Uncaught _ \<Rightarrow> [] | _ \<Rightarrow> [LOGE (''FATAL: '' @ fatal_message e f)])"

text \<open>A failed check prints its line and ends the process.\<close>

definition and_log :: "sys_error \<Rightarrow> fatal + 'a \<Rightarrow> ('a \<Rightarrow> string list) \<Rightarrow> string list" where
  "and_log e r lines = (case r of Inl f \<Rightarrow> fatal_log e f | Inr x \<Rightarrow> lines x)"

definition main_log ::
  "kernel \<Rightarrow> radio_hw \<Rightarrow> gpio_sys \<Rightarrow> sys_error \<Rightarrow> arguments \<Rightarrow> string list" where
  "main_log k hw sys e args =
     (let tunnel = ''tunnel '' @ quoted (arg_interface_name args) in
      and_log e (main_radio_config args) (\<lambda>cfg.
      and_log e (OpenTunnel k (arg_interface_name args) []) (\<lambda>calls.
      LOGI (tunnel @ '' opened'') #
      and_log e (SetInterfaceFlags k (arg_interface_name args) 1 calls) (\<lambda>calls.
      LOGI (tunnel @ '' up'') #
      and_log e (SetIPAddress k (arg_interface_name args) (main_tunnel_ip args) (arg_tunnel_mask args) calls)
        (\<lambda>calls.
      LOGI (tunnel @ '' configured with '' @ quoted (main_tunnel_ip args) @ '' mask '' @
        quoted (arg_tunnel_mask args)) #
      (if arg_primary args \<or> arg_secondary args then
         and_log e (RadioInterface hw sys (arg_channel args) cfg (arg_irq_pin args))
           (\<lambda>_. RadioInterface_log sys e (arg_irq_pin args))
       else fatal_log e No_mode))))))"

section \<open>How often a failure is logged\<close>

lemma Encode_logged: "errors (EncodeMacFrame_log f) = (if EncodeMacFrame f = None then 1 else 0)"
  by (simp add: EncodeMacFrame_def EncodeMacFrame_log_def Let_def)

lemma Decode_logged: "errors (DecodeMacFrame_log p) = (if DecodeMacFrame p = None then 1 else 0)"
  by (simp add: DecodeMacFrame_def DecodeMacFrame_log_def Let_def)

text \<open>How many lines a result of \<open>Send\<close> leaves: the cause, and for a transmission the recovery.\<close>

fun send_errors :: "RequestResult \<Rightarrow> nat" where
  "send_errors Success = 0"
| "send_errors Timeout = 0"
| "send_errors Malformed = 1"
| "send_errors TransmitError = 2"

lemma Send_logged:
  "Send env request s = Some (res, s') \<Longrightarrow> errors (Send_log env request) = send_errors res"
  by (auto simp: Send_def Send_log_def RecoverAfterTransmitFailure_log_def Let_def
      split: option.splits if_splits)

lemma irq_line_result:
  "map_option (\<lambda>lines. if lines = [] then Success else Timeout) (irq_line_log obs errs w d i)
     = irq_body obs d i"
  by (simp add: irq_line_log_def irq_body_def Let_def split: gpiod_wait.split gpiod_read.split)

lemma irq_line_errors:
  "irq_line_log obs errs w d i = Some lines \<Longrightarrow> errors lines = (if lines = [] then 0 else 1)"
  by (auto simp: irq_line_log_def Let_def split: if_splits gpiod_wait.splits gpiod_read.splits)

lemma first_some_None: "first_some body 0 = None \<longleftrightarrow> (\<forall>n. body n = None)"
proof
  show "first_some body 0 = None \<Longrightarrow> \<forall>n. body n = None"
    using first_some_total [of body] by force
  show "\<forall>n. body n = None \<Longrightarrow> first_some body 0 = None"
    using first_some_iff [of body] by (metis not_None_eq)
qed

lemma first_some_map:
  "first_some (\<lambda>i. map_option f (body i)) 0 = map_option f (first_some body 0)"
proof (cases "first_some body 0")
  case None
  then have "first_some (\<lambda>i. map_option f (body i)) 0 = None"
    unfolding first_some_None by simp
  with None show ?thesis by simp
next
  case (Some r)
  then obtain n where "body n = Some r" "\<forall>j < n. body j = None"
    unfolding first_some_iff by blast
  then have "first_some (\<lambda>i. map_option f (body i)) 0 = Some (f r)"
    unfolding first_some_iff by (intro exI [of _ n]) simp
  with Some show ?thesis by simp
qed

lemma Wait_logged:
  assumes "WaitForRxReady env (irq_line s \<noteq> None) t = Some res"
  shows "errors (WaitForRxReady_log env errs t s) = (if res = Success then 0 else 1)"
proof (cases "irq_line s = None")
  case True
  with assms have "first_some (poll_body (recv_obs env) (recv_start env) t) 0 = Some res"
    by (simp add: WaitForRxReady_def)
  with True WaitForRxReady_result [OF assms] show ?thesis
    by (auto simp: WaitForRxReady_log_def)
next
  case False
  let ?d = "if t = 0 then 0 else recv_start env + t"
  let ?log = "irq_line_log (recv_obs env) errs (irq_where s) ?d"
  have "first_some (irq_body (recv_obs env) ?d) 0
      = map_option (\<lambda>lines. if lines = [] then Success else Timeout) (first_some ?log 0)"
    unfolding irq_line_result [where errs = errs and w = "irq_where s", symmetric] by (rule first_some_map)
  with assms False obtain lines where
    lines: "first_some ?log 0 = Some lines" "res = (if lines = [] then Success else Timeout)"
    by (auto simp: WaitForRxReady_def Let_def)
  from lines(1) have "errors lines = (if lines = [] then 0 else 1)"
    unfolding first_some_iff using irq_line_errors by blast
  moreover have "WaitForRxReady_log env errs t s = lines"
    unfolding WaitForRxReady_log_def Let_def if_not_P [OF False] by (simp add: lines(1))
  ultimately show ?thesis
    using lines(2) by simp
qed

lemma WriteTunnel_logged:
  "errors (WriteTunnel_log e s) = (if e = None \<and> tun_out (WriteTunnel s) \<noteq> tun_out s then 0 else 1)"
  by (simp add: WriteTunnel_log_def WriteTunnel_def split: option.split)

lemma Consume_logged:
  assumes "\<not> fst (ConsumeDataFrameLocked f s)"
  shows "errors (ConsumeDataFrameLocked_log e f s) = 1"
  using assms
  by (auto simp: ConsumeDataFrameLocked_def ConsumeDataFrameLocked_log_def Let_def
      split: option.splits if_splits)

lemma TunnelThread_logged:
  "errors (TunnelThread_log e input (pc, s)) =
     (if pc = Tunnel_read \<and> read_buffer (snd (TunnelThread_step input (pc, s))) = read_buffer s
      then 1 else 0)"
  by (cases pc) (simp_all add: Let_def tunnel_push_def split: option.split)

lemma InitializeIrq_logged:
  assumes "InitializeIrq sys s = Inr (ok, ops, s')"
  shows "errors (InitializeIrq_log sys e s) = (if ok \<or> irq_pin s < 0 then 0 else 1)"
  using assms
  by (auto simp: InitializeIrq_def InitializeIrq_log_def Let_def
      split: if_splits sum.splits option.splits prod.splits)

lemma InitializeIrq_silent:
  assumes "InitializeIrq sys s = Inl x"
  shows "InitializeIrq_log sys e s = []"
  using assms
  by (auto simp: InitializeIrq_def InitializeIrq_log_def Let_def
      split: if_splits sum.splits option.splits prod.splits)

lemma RadioInterface_logged:
  "errors (RadioInterface_log sys e pin) =
     (case InitializeIrq sys (RadioInterface_init pin :: link) of
        Inl _ \<Rightarrow> 0 | Inr (ok, _, _) \<Rightarrow> if ok \<or> pin < 0 then 0 else 2)"
proof (cases "InitializeIrq sys (RadioInterface_init pin :: link)")
  case (Inl x)
  then show ?thesis
    using InitializeIrq_silent [OF Inl] by (simp add: RadioInterface_log_def Let_def)
next
  case (Inr r)
  obtain ok ops s where "r = (ok, ops, s)"
    by (cases r)
  with Inr InitializeIrq_logged [of sys "RadioInterface_init pin" ok ops s e] show ?thesis
    by (cases ok) (simp_all add: RadioInterface_log_def Let_def RadioInterface_init_def)
qed

definition is_fatal :: "string \<Rightarrow> bool" where
  "is_fatal line \<longleftrightarrow> take 10 line = ''E: FATAL: ''"

definition fatals :: "string list \<Rightarrow> nat" where
  "fatals lines = length (filter is_fatal lines)"

lemma fatals_simps [simp]:
  "fatals [] = 0" "fatals (LOGI m # lines) = fatals lines" "fatals (xs @ ys) = fatals xs + fatals ys"
  by (simp_all add: fatals_def is_fatal_def LOGI_def LOG_def)

lemma InitializeIrq_not_fatal: "fatals (InitializeIrq_log sys e s) = 0"
  by (simp add: InitializeIrq_log_def Let_def split: sum.split option.split)
    (simp add: fatals_def is_fatal_def LOGE_def LOG_def)

lemma RadioInterface_not_fatal: "fatals (RadioInterface_log sys e irq) = 0"
  by (simp add: RadioInterface_log_def Let_def InitializeIrq_not_fatal split: sum.split prod.split bool.split)
    (simp add: fatals_def is_fatal_def LOGE_def LOG_def)

text \<open>How a failed start shows.\<close>

definition fatal_exits :: "fatal + 'a \<Rightarrow> nat" where
  "fatal_exits r = (case r of Inl (Uncaught _) \<Rightarrow> 0 | Inl _ \<Rightarrow> 1 | Inr _ \<Rightarrow> 0)"

lemma fatal_log_exit: "fatals (fatal_log e f) = fatal_exits (Inl f)"
  by (cases f) (simp_all add: fatal_log_def fatal_exits_def fatals_def is_fatal_def LOGE_def LOG_def)

lemma and_log_exit:
  assumes "\<And>x. r = Inr x \<Longrightarrow> fatals (lines x) = fatal_exits (rest x)"
  shows "fatals (and_log e r lines) = fatal_exits (and_then r rest)"
proof (cases r)
  case (Inl f)
  then show ?thesis
    using fatal_log_exit [of e f] by (cases f) (simp_all add: and_log_def fatal_exits_def)
qed (use assms in \<open>simp add: and_log_def\<close>)

lemma fatal_exits_Inr [simp]: "fatal_exits (Inr x) = 0"
  by (simp add: fatal_exits_def)

lemma info_exit: "fatals lines = n \<Longrightarrow> fatals (LOGI m # lines) = n"
  by simp

lemma RadioInterface_exit:
  "fatals (and_log e (RadioInterface hw sys channel cfg irq) (\<lambda>_. RadioInterface_log sys e irq))
     = fatal_exits (and_then (RadioInterface hw sys channel cfg irq) (\<lambda>(setup, _, base). Inr (f setup base)))"
  by (rule and_log_exit) (simp add: RadioInterface_not_fatal split_beta)

lemma main_logged: "fatals (main_log k hw sys e args) = fatal_exits (main k hw sys args)"
  unfolding main_log_def main_def Let_def
proof (intro and_log_exit info_exit, goal_cases)
  case (1 cfg calls calls' calls'')
  consider (primary) "arg_primary args" | (secondary) "\<not> arg_primary args" "arg_secondary args"
    | (none) "\<not> arg_primary args" "\<not> arg_secondary args"
    by blast
  then show ?case
  proof cases
    case primary
    then show ?thesis
      by (simp only: if_True simp_thms) (rule RadioInterface_exit)
  next
    case secondary
    then show ?thesis
      by (simp only: if_True if_False simp_thms) (rule RadioInterface_exit)
  next
    case none
    then show ?thesis
      by (simp add: fatal_log_exit)
  qed
qed

section \<open>The property\<close>


end
