(* ===== verification/Logs.thy ===== *)
theory Logs
  imports Messages
begin

text \<open>
  All the lines a pass of either main loop prints: those of the two classes, tagged \<open>[COORD]\<close> and
  \<open>[PEER]\<close> (\<open>LogPeerRx\<close>, \<open>LogPeerTx\<close>, the pair and statistics lines, the failures, with the counters that
  throttle them), and between them those of the base class from \<open>Messages\<close>. These definitions follow
  the passes of \<open>Coordinator\<close> and \<open>Peer\<close> beside them. A pass that never returns is given the lines up
  to the call that hangs.
\<close>

section \<open>Lines\<close>

text \<open>What a pass may have to print of the system: \<open>errno\<close> in a pass of the interrupt loop, and the
  error of a \<open>write\<close> to the tunnel.\<close>

record line_env =
  wait_errs :: "nat \<Rightarrow> sys_error"
  write_err :: "sys_error option"

definition entry :: "string \<Rightarrow> string \<Rightarrow> string" where
  "entry name value = name @ ''='' @ value"

fun spaced :: "string list \<Rightarrow> string" where
  "spaced [] = []"
| "spaced [x] = x"
| "spaced (x # xs) = x @ '' '' @ spaced xs"

definition frame_text :: "MacFrame \<Rightarrow> string" where
  "frame_text f =
     ''type='' @ show_word (byte_of_type (ftype f)) @ '' seq='' @ show_word (seq f) @
     '' ack='' @ show_word (ack f) @ '' pending='' @ show_word (pending f) @
     '' arg='' @ show_word (arg f) @ '' payload='' @ decimal_nat (length (payload f))"

definition LogPeerRx :: "MacFrame \<Rightarrow> string" where
  "LogPeerRx rx = LOGI (''[PEER][RX] '' @ frame_text rx)"

definition LogPeerTx :: "MacFrame \<Rightarrow> string" where
  "LogPeerTx tx = LOGI (''[PEER][TX] '' @ frame_text tx)"

fun state_number :: "CoordinatorState \<Rightarrow> nat" where
  "state_number ResetSync = 0"
| "state_number Idle = 1"
| "state_number IssueGrant = 2"
| "state_number ActiveRx = 3"

definition pair_line :: "MacFrame \<Rightarrow> MacFrame \<Rightarrow> CoordinatorState \<Rightarrow> string" where
  "pair_line tx rx st =
     LOGI (''[COORD][PAIR] TX('' @ frame_text tx @ '') RX('' @ frame_text rx @ '') state='' @
           decimal_nat (state_number st))"

section \<open>A pass of the peer\<close>

definition peer_stat_line :: "peer \<Rightarrow> string" where
  "peer_stat_line s =
     LOGI (''[PEER][STAT] '' @ spaced
       [entry ''pend_tx'' (show_word (p_tx_pending_count s)),
        entry ''data_tx'' (show_word (p_tx_data_count s)),
        entry ''ack_tx'' (show_word (p_tx_ack_count s)),
        entry ''reset_tx'' (show_word (p_tx_reset_count s)),
        entry ''grant_rx'' (show_word (p_rx_grant_count s)),
        entry ''pend_rx'' (show_word (p_rx_pending_count s)),
        entry ''ack_rx'' (show_word (p_rx_ack_count s)),
        entry ''data_rx'' (show_word (p_rx_data_count s)),
        entry ''reset_rx'' (show_word (p_rx_reset_count s)),
        entry ''send_fail'' (show_word (p_tx_send_fail_count s)),
        entry ''sf_pend'' (show_word (p_tx_send_fail_pending_count s)),
        entry ''sf_grant'' (show_word (p_tx_send_fail_grant_count s)),
        entry ''sf_data'' (show_word (p_tx_send_fail_data_count s)),
        entry ''sf_ack'' (show_word (p_tx_send_fail_ack_count s)),
        entry ''sf_reset'' (show_word (p_tx_send_fail_reset_count s))])"

definition peer_stat_log :: "u64 \<Rightarrow> peer \<Rightarrow> string list" where
  "peer_stat_log stat_now_us s =
     (let last = (if p_last_stat_print_us s = 0 then stat_now_us else p_last_stat_print_us s)
      in if stat_now_us - last \<ge> 1000000 then [peer_stat_line s] else [])"

definition HandleReset_log :: "send_env \<Rightarrow> string list" where
  "HandleReset_log env =
     (case EncodeMacFrame peer_reset_frame of
        None \<Rightarrow> EncodeMacFrame_log peer_reset_frame
      | Some response \<Rightarrow> Send_log env response)"

definition request_log :: "sys_error option \<Rightarrow> MacFrame \<Rightarrow> 'a link_scheme \<Rightarrow> string list" where
  "request_log werr rx s =
     (if ftype rx = Data then ConsumeDataFrameLocked_log werr rx (CommitAckLocked (ack rx) s) else [])"

definition answer_log ::
  "line_env \<Rightarrow> send_env \<Rightarrow> u64 \<Rightarrow> MacFrame \<Rightarrow> peer \<Rightarrow> string list" where
  "answer_log le env stat_now_us rx s =
     (let s = RecordRx rx s in
      if ftype rx = Reset then
        HandleReset_log env @
        (case HandleReset env s of
           None \<Rightarrow> []
         | Some (ok, _) \<Rightarrow> if \<not> ok then [LOGE ''[PEER] reset handling failed''] else [])
      else request_log (write_err le) rx s @
      (case ApplyCoordinatorRequest rx s of
        (applied, s) \<Rightarrow>
          if \<not> applied then [LOGE ''[PEER] failed to apply coordinator request'']
          else case ChoosePeerResponse s of
            (chosen, tx, s) \<Rightarrow>
              if \<not> chosen then [LOGE ''[PEER] failed to choose response'']
              else case EncodeMacFrame tx of
                None \<Rightarrow> EncodeMacFrame_log tx @ [LOGE ''[PEER] encode failed'']
              | Some response \<Rightarrow>
                  Send_log env response @
                  (case Send env response s of
                     None \<Rightarrow> []
                   | Some (result, s) \<Rightarrow>
                       let failed = (result \<noteq> Success);
                           s = (if failed
                                then PeerRecordSendFailure (ftype tx)
                                       (s\<lparr>p_tx_send_fail_count := p_tx_send_fail_count s + 1\<rparr>)
                                else s);
                           s = RecordTx tx s;
                           is_idle_pair = (ftype rx = Pending \<and> ftype tx = Ack)
                       in (if failed then [LOGE ''[PEER] send failed''] else []) @
                          (if \<not> is_idle_pair \<or> p_idle_log_counter s mod 100 = 0
                           then [LogPeerRx rx, LogPeerTx tx] else []) @
                          peer_stat_log stat_now_us s)))"

definition Peer_log :: "line_env \<Rightarrow> peer_env \<Rightarrow> peer \<Rightarrow> string list" where
  "Peer_log le env s =
     WaitForRxReady_log (pe_recv env) (wait_errs le) 0 s @
     (case Receive (pe_recv env) (replicate kMaxPacketSize 0) 0 s of
        None \<Rightarrow> []
      | Some (result, request, s) \<Rightarrow>
          if result \<noteq> Success then []
          else DecodeMacFrame_log request @
          (case DecodeMacFrame request of
            None \<Rightarrow> []
          | Some rx \<Rightarrow> answer_log le (pe_send env) (pe_stat_now env) rx s))"

section \<open>A pass of the coordinator\<close>

definition coordinator_stat_line :: "coordinator \<Rightarrow> string" where
  "coordinator_stat_line s =
     LOGI (''[COORD][STAT] '' @ spaced
       [entry ''pend_tx'' (show_word (c_tx_pending_count s)),
        entry ''grant_tx'' (show_word (c_tx_grant_count s)),
        entry ''data_tx'' (show_word (c_tx_data_count s)),
        entry ''ack_rx'' (show_word (c_rx_ack_count s)),
        entry ''pend_rx'' (show_word (c_rx_pending_count s)),
        entry ''data_rx'' (show_word (c_rx_data_count s)),
        entry ''send_fail'' (show_word (c_tx_send_fail_count s)),
        entry ''sf_pend'' (show_word (c_tx_send_fail_pending_count s)),
        entry ''sf_grant'' (show_word (c_tx_send_fail_grant_count s)),
        entry ''sf_data'' (show_word (c_tx_send_fail_data_count s)),
        entry ''sf_ack'' (show_word (c_tx_send_fail_ack_count s)),
        entry ''sf_reset'' (show_word (c_tx_send_fail_reset_count s)),
        entry ''rx_timeout'' (show_word (c_rx_timeout_count s)),
        entry ''disconnected'' (if disconnected s then ''1'' else ''0''),
        entry ''fail_streak'' (decimal (poll_fail_count s)),
        entry ''send_streak'' (decimal (send_fail_streak s)),
        entry ''timeout_streak'' (decimal (timeout_fail_streak s)),
        entry ''backoff_us'' (show_word (disconnect_backoff_us s))])"

definition coordinator_stat_log :: "u64 \<Rightarrow> coordinator \<Rightarrow> string list" where
  "coordinator_stat_log stat_now_us s =
     (let last = (if c_last_stat_print_us s = 0 then stat_now_us else c_last_stat_print_us s)
      in if stat_now_us - last \<ge> 1000000 then [coordinator_stat_line s] else [])"

definition apply_log :: "line_env \<Rightarrow> MacFrame \<Rightarrow> coordinator \<Rightarrow> string list" where
  "apply_log le rx s =
     request_log (write_err le) rx s @
     (if ftype rx = Data \<and> \<not> fst (ConsumeDataFrameLocked rx (CommitAckLocked (ack rx) s))
      then [LOGE ''[COORD] failed to consume peer DATA'']
      else if ftype rx = Reset then [LOGE ''[COORD] unexpected RESET from peer'']
      else if ftype rx = Grant then [LOGE ''[COORD] unexpected GRANT from peer'']
      else [])"

definition exchange_log :: "line_env \<Rightarrow> exchange_env \<Rightarrow> coordinator \<Rightarrow> string list" where
  "exchange_log le env s =
     (case ChooseCoordinatorTxFrame s of
        (chosen, tx, s) \<Rightarrow>
          if \<not> chosen then []
          else case EncodeMacFrame tx of
            None \<Rightarrow> EncodeMacFrame_log tx
          | Some request \<Rightarrow>
              Send_log (x_send env) request @
              (case Send (x_send env) request s of
                 None \<Rightarrow> []
               | Some (result, s) \<Rightarrow>
                   if result \<noteq> Success then
                     (if (fail_log_counter s + 1) mod 100 = 1 then [LOGE ''[COORD] send failed''] else [])
                   else
                     WaitForRxReady_log (x_recv env) (wait_errs le) kResponseTimeoutUs s @
                     (case Receive (x_recv env) (replicate kMaxPacketSize 0) kResponseTimeoutUs s of
                        None \<Rightarrow> []
                      | Some (result, response, s) \<Rightarrow>
                          if result \<noteq> Success then
                            (if (fail_log_counter s + 1) mod 100 = 1 then [LOGE ''[COORD] receive failed'']
                             else [])
                          else
                            DecodeMacFrame_log response @
                            (case DecodeMacFrame response of
                               None \<Rightarrow> [LOGE ''[COORD] decode failed'']
                             | Some rx \<Rightarrow>
                                 let is_idle_pair = (ftype tx = Pending \<and> ftype rx = Ack)
                                 in (if \<not> is_idle_pair \<or> c_idle_log_counter s mod 100 = 0
                                     then [pair_line tx rx (cstate s)] else []) @
                                    apply_log le rx s))))"

text \<open>A reset attempt prints nothing of its own.\<close>

definition ConnectionReset_log :: "line_env \<Rightarrow> exchange_env \<Rightarrow> coordinator \<Rightarrow> string list" where
  "ConnectionReset_log le env s =
     (let s = begin_reset s in
      case EncodeMacFrame reset_frame of
        None \<Rightarrow> EncodeMacFrame_log reset_frame
      | Some request \<Rightarrow>
          Send_log (x_send env) request @
          (case Send (x_send env) request s of
             None \<Rightarrow> []
           | Some (result, s) \<Rightarrow>
               if result \<noteq> Success then []
               else
                 WaitForRxReady_log (x_recv env) (wait_errs le) kResponseTimeoutUs s @
                 (case Receive (x_recv env) (replicate kMaxPacketSize 0) kResponseTimeoutUs s of
                    None \<Rightarrow> []
                  | Some (result, response, s) \<Rightarrow>
                      if result \<noteq> Success then [] else DecodeMacFrame_log response)))"

definition Run_log :: "line_env \<Rightarrow> run_env \<Rightarrow> coordinator \<Rightarrow> string list" where
  "Run_log le env s =
     (if disconnected s then
        (if loop_now env < next_retry_time_us s then []
         else ConnectionReset_log le (run_exchange env) s @
         (case ConnectionReset (run_exchange env) s of
           None \<Rightarrow> []
         | Some (ok, s) \<Rightarrow>
             if \<not> ok then
               (let count = reset_fail_log_counter s + 1 in
                if count mod 100 = 1
                then [LOGE (''[COORD] connection reset failed (count='' @ show_word count @
                            '', backoff_us='' @ show_word (disconnect_backoff_us s) @ '')'')]
                else [])
             else [LOGI ''[COORD] connection reset success'']))
      else
        let s = choose_poll_interval s;
            s = dev (Sleep (current_poll_interval_us s)) s
        in if connection_reset_required s then
             ConnectionReset_log le (run_exchange env) s @
             (case ConnectionReset (run_exchange env) s of
                None \<Rightarrow> []
              | Some (ok, s) \<Rightarrow>
                  if \<not> ok then
                    (let count = reset_fail_log_counter s + 1 in
                     if count mod 100 = 1
                     then [LOGE (''[COORD] connection reset failed (count='' @ show_word count @ '')'')]
                     else [])
                  else [LOGI ''[COORD] connection reset success''])
           else
             exchange_log le (run_exchange env) s @
             (case PerformExchange (run_exchange env) s of
                None \<Rightarrow> []
              | Some (result, t) \<Rightarrow>
                  coordinator_stat_log (stat_now env) (after_exchange (fail_now env) result t)))"

section \<open>Reading the lines\<close>

lemma decimal_nat_inj: "decimal_nat m = decimal_nat n \<longleftrightarrow> m = n"
  using decimal_nat_value [of m] decimal_nat_value [of n] by (metis of_nat_eq_iff)

lemma takeWhile_decimal_nat:
  assumes "\<not> is_digit c"
  shows "takeWhile is_digit (decimal_nat n @ c # xs) = decimal_nat n"
proof -
  have "\<forall>x \<in> set (decimal_nat n). is_digit x"
    using decimal_nat_digits [of n] by (simp add: list_all_iff)
  with assms show ?thesis
    by (simp add: takeWhile_append2)
qed

text \<open>A number followed by something that is not a digit can be read back.\<close>

lemma decimal_nat_read:
  assumes "\<not> is_digit c" and "\<not> is_digit d"
  shows "decimal_nat m @ c # xs = decimal_nat n @ d # ys \<longleftrightarrow> m = n \<and> c = d \<and> xs = ys"
proof
  assume eq: "decimal_nat m @ c # xs = decimal_nat n @ d # ys"
  then have "decimal_nat m = decimal_nat n"
    using takeWhile_decimal_nat [OF assms(1), of m xs] takeWhile_decimal_nat [OF assms(2), of n ys]
    by simp
  with eq show "m = n \<and> c = d \<and> xs = ys"
    by (simp add: decimal_nat_inj)
qed auto

lemma separators [simp]:
  "\<not> is_digit (CHR '' '')" "\<not> is_digit (CHR '')'')" "\<not> is_digit (CHR 0x0A)"
  by (simp_all add: is_digit_def)

lemma show_word_read:
  assumes "\<not> is_digit c" and "\<not> is_digit d"
  shows "show_word m @ c # xs = show_word n @ d # ys \<longleftrightarrow> m = n \<and> c = d \<and> xs = ys"
  using assms by (simp add: show_word_def decimal_nat_read word_unat_eq_iff)

definition same_log :: "MacFrame \<Rightarrow> MacFrame \<Rightarrow> bool" where
  "same_log f g \<longleftrightarrow>
     byte_of_type (ftype f) = byte_of_type (ftype g) \<and> seq f = seq g \<and> ack f = ack g \<and>
     pending f = pending g \<and> arg f = arg g \<and> length (payload f) = length (payload g)"

lemma frame_text_read:
  assumes "\<not> is_digit c" and "\<not> is_digit d"
  shows "frame_text f @ c # xs = frame_text g @ d # ys \<longleftrightarrow> same_log f g \<and> c = d \<and> xs = ys"
  using assms by (auto simp: frame_text_def decimal_nat_read show_word_read same_log_def)

lemma frame_text_eq: "frame_text f = frame_text g \<longleftrightarrow> same_log f g"
  using frame_text_read [of "CHR '' ''" "CHR '' ''" f "[]" g "[]"] by simp

lemma state_number_inj: "state_number st = state_number st' \<longleftrightarrow> st = st'"
  by (cases st; cases st') simp_all

text \<open>The log tells what went over the air: two lines of the peer agree
  exactly if they are of the same direction and their frames agree in type, numbers and payload size,
  and a pair line of the coordinator determines both its frames in the same way, and the state.\<close>

lemma log_lines_identify_frames:
  "(LogPeerRx f = LogPeerRx g \<longleftrightarrow> same_log f g) \<and> (LogPeerTx f = LogPeerTx g \<longleftrightarrow> same_log f g) \<and>
   LogPeerRx f \<noteq> LogPeerTx g \<and>
   (pair_line f f' st = pair_line g g' st' \<longleftrightarrow> same_log f g \<and> same_log f' g' \<and> st = st')"
  by (simp add: LogPeerRx_def LogPeerTx_def pair_line_def LOGI_def LOG_def frame_text_read
      frame_text_eq decimal_nat_inj state_number_inj)

end
