(* ===== verification/Interleaving.thy ===== *)
theory Interleaving
  imports Coordinator_Run Peer
begin

text \<open>
  The tunnel thread runs beside the main thread and may queue packets whenever the main thread does
  not hold \<open>read_buffer_mutex_\<close>. Here the passes of both main loops are written out once more, with
  packets queued at every such point, and shown to be passes without any interference between packets
  queued before and packets queued after. This is why the steps of \<open>Link_System\<close> may be as coarse as
  they are: a whole pass of the peer, and the two halves of a pass of the coordinator.
\<close>

section \<open>Queueing commutes\<close>

definition queue_all :: "bytes list \<Rightarrow> 'a link_scheme \<Rightarrow> 'a link_scheme" where
  "queue_all qs s = fold tunnel_push qs s"

lemma queue_all_eq: "queue_all qs s = s\<lparr>read_buffer := read_buffer s @ qs\<rparr>"
  by (simp add: queue_all_def fold_push)

lemma queue_all_append [simp]: "queue_all ps (queue_all qs s) = queue_all (qs @ ps) s"
  by (simp add: queue_all_eq)

lemma queue_all_Nil [simp]: "queue_all [] s = s"
  by (simp add: queue_all_def)

lemma Send_queue:
  "Send env r (queue_all qs s) = map_option (map_prod id (queue_all qs)) (Send env r s)"
  by (simp add: Send_def Let_def queue_all_eq dev_def RecoverAfterTransmitFailure_def
      split: option.split)

lemma Receive_queue:
  "Receive env bs t (queue_all qs s)
     = map_option (\<lambda>(result, bs, s). (result, bs, queue_all qs s)) (Receive env bs t s)"
  by (simp add: Receive_def Let_def queue_all_eq dev_def split: option.split)

text \<open>Part of \<open>link_wf\<close>: a packet in flight is at the head of the queue.\<close>

definition head_queued :: "'a link_scheme \<Rightarrow> bool" where
  "head_queued s \<longleftrightarrow> (tx_in_flight s \<longrightarrow> read_buffer s \<noteq> [])"

lemma head_queued_wf: "link_wf s \<Longrightarrow> head_queued s"
  by (auto simp: link_wf_def head_queued_def)

lemma head_queued_queue [simp]: "head_queued s \<Longrightarrow> head_queued (queue_all qs s)"
  by (auto simp: head_queued_def queue_all_eq)

lemma head_queued_view: "tx_view s' = tx_view s \<Longrightarrow> head_queued s' = head_queued s"
  by (simp add: head_queued_def tx_view_def)

lemma CommitAckLocked_queue:
  assumes "head_queued s"
  shows "CommitAckLocked a (queue_all qs s) = queue_all qs (CommitAckLocked a s)"
proof (cases "tx_in_flight s")
  case True
  with assms obtain p ps where "read_buffer s = p # ps"
    by (cases "read_buffer s") (auto simp: head_queued_def)
  then show ?thesis
    by (simp add: CommitAckLocked_def queue_all_eq Let_def AdvanceTxSeq_def)
next
  case False
  then show ?thesis
    by (simp add: CommitAckLocked_def queue_all_eq)
qed

lemma ConsumeDataFrameLocked_queue:
  "ConsumeDataFrameLocked f (queue_all qs s)
     = map_prod id (queue_all qs) (ConsumeDataFrameLocked f s)"
  by (simp add: ConsumeDataFrameLocked_def queue_all_eq Let_def WriteTunnel_def
      ResetRxAssemblyLocked_def split: option.split)

section \<open>A pass of the peer\<close>

text \<open>Packets queued between \<open>ApplyCoordinatorRequest\<close> and \<open>ChoosePeerResponse\<close>, and inside the latter.\<close>

definition prepare_response_at ::
  "bytes list \<Rightarrow> bytes list \<Rightarrow> MacFrame \<Rightarrow> peer \<Rightarrow> (MacFrame \<times> bytes) option \<times> peer" where
  "prepare_response_at q2 q3 rx s =
     (case ApplyCoordinatorRequest rx s of
        (applied, s) \<Rightarrow>
          let s = queue_all q2 s in
          if \<not> applied then (None, queue_all q3 s)
          else case ChoosePeerResponse_at q3 s of
            (chosen, tx, s) \<Rightarrow>
              if \<not> chosen then (None, s)
              else case EncodeMacFrame tx of
                None \<Rightarrow> (None, s)
              | Some response \<Rightarrow> (Some (tx, response), s))"

text \<open>And before the first region under the lock, and after the last.\<close>

definition answer_request_at ::
  "bytes list \<Rightarrow> bytes list \<Rightarrow> bytes list \<Rightarrow> bytes list \<Rightarrow> send_env \<Rightarrow> u64 \<Rightarrow> MacFrame \<Rightarrow> peer \<Rightarrow> peer option" where
  "answer_request_at q1 q2 q3 q4 env stat_now_us rx s =
     (let s = queue_all q1 (RecordRx rx s) in
      if ftype rx = Reset then map_option (\<lambda>(_, s). queue_all (q2 @ q3 @ q4) s) (HandleReset env s)
      else case prepare_response_at q2 q3 rx s of
        (None, s) \<Rightarrow> Some (queue_all q4 s)
      | (Some (tx, response), s) \<Rightarrow>
          (case Send env response s of
             None \<Rightarrow> None
           | Some (result, s) \<Rightarrow>
               (let s = queue_all q4 s;
                    s = (if result \<noteq> Success
                         then PeerRecordSendFailure (ftype tx)
                                (s\<lparr>p_tx_send_fail_count := p_tx_send_fail_count s + 1\<rparr>)
                         else s);
                    s = RecordTx tx s;
                    is_idle_pair = (ftype rx = Pending \<and> ftype tx = Ack);
                    s = (if is_idle_pair then s\<lparr>p_idle_log_counter := p_idle_log_counter s + 1\<rparr>
                         else s)
                in Some (peer_stats stat_now_us s))))"

definition Peer_step_at ::
  "bytes list \<Rightarrow> bytes list \<Rightarrow> bytes list \<Rightarrow> bytes list \<Rightarrow> peer_env \<Rightarrow> peer \<Rightarrow> peer option" where
  "Peer_step_at q1 q2 q3 q4 env s =
     (case Receive (pe_recv env) (replicate kMaxPacketSize 0) 0 s of
        None \<Rightarrow> None
      | Some (result, request, s) \<Rightarrow>
          if result \<noteq> Success then Some (queue_all (q1 @ q2 @ q3 @ q4) s)
          else case DecodeMacFrame request of
            None \<Rightarrow> Some (queue_all (q1 @ q2 @ q3 @ q4) s)
          | Some rx \<Rightarrow> answer_request_at q1 q2 q3 q4 (pe_send env) (pe_stat_now env) rx s)"

lemma peer_counters_queue:
  "RecordRx rx (queue_all qs p) = queue_all qs (RecordRx rx p)"
  "RecordTx tx (queue_all qs p) = queue_all qs (RecordTx tx p)"
  "PeerRecordSendFailure ft (queue_all qs p) = queue_all qs (PeerRecordSendFailure ft p)"
  "peer_stats t (queue_all qs p) = queue_all qs (peer_stats t p)"
  "(queue_all qs p)\<lparr>p_tx_send_fail_count := n\<rparr> = queue_all qs (p\<lparr>p_tx_send_fail_count := n\<rparr>)"
  "(queue_all qs p)\<lparr>p_idle_log_counter := n\<rparr> = queue_all qs (p\<lparr>p_idle_log_counter := n\<rparr>)"
  "p_tx_send_fail_count (queue_all qs p) = p_tx_send_fail_count p"
  "p_idle_log_counter (queue_all qs p) = p_idle_log_counter p"
  by (simp_all add: RecordRx_def RecordTx_def PeerRecordSendFailure_def peer_stats_def queue_all_eq
      Let_def split: FrameType.split)

lemma HandleReset_queue:
  "HandleReset env (queue_all qs p) = map_option (map_prod id (queue_all qs)) (HandleReset env p)"
proof -
  have "begin_peer_reset (queue_all qs p) = queue_all qs (begin_peer_reset p)"
    by (simp add: begin_peer_reset_def clear_session_def queue_all_eq)
  then show ?thesis
    by (simp add: HandleReset_def Let_def Send_queue peer_counters_queue option.map_comp
        split: option.split)
qed

lemma ApplyCoordinatorRequest_queue:
  assumes "head_queued p"
  shows "ApplyCoordinatorRequest rx (queue_all qs p)
    = map_prod id (queue_all qs) (ApplyCoordinatorRequest rx p)"
  by (simp add: ApplyCoordinatorRequest_def Let_def CommitAckLocked_queue [OF assms]
      ConsumeDataFrameLocked_queue split: FrameType.split prod.split)
    (simp add: queue_all_eq)

lemma prepare_response_queue:
  assumes "head_queued p"
  shows "prepare_response_at q2 q3 rx p =
    (case prepare_response rx (queue_all q2 p) of (r, p') \<Rightarrow> (r, queue_all q3 p'))"
  by (simp add: prepare_response_at_def prepare_response_def Let_def
      ApplyCoordinatorRequest_queue [OF assms] peer_choose_is_atomic queue_all_def [symmetric]
      split: prod.split option.split)

lemma answer_request_queue:
  assumes "head_queued p"
  shows "answer_request_at q1 q2 q3 q4 env t rx p =
    map_option (queue_all (q3 @ q4)) (answer_request env t rx (queue_all (q1 @ q2) p))"
proof (cases "ftype rx = Reset")
  case True
  then show ?thesis
    by (simp add: answer_request_at_def answer_request_def Let_def peer_counters_queue
        HandleReset_queue option.map_comp comp_def split_beta)
next
  case False
  let ?u = "queue_all (q1 @ q2) (RecordRx rx p)"
  obtain r v where rv: "prepare_response rx ?u = (r, v)"
    by fastforce
  have "head_queued (queue_all q1 (RecordRx rx p))"
    using assms head_queued_view [of "RecordRx rx p" p] by simp
  from prepare_response_queue [OF this, of q2 q3 rx] rv have
    at: "prepare_response_at q2 q3 rx (queue_all q1 (RecordRx rx p)) = (r, queue_all q3 v)"
    by simp
  show ?thesis
  proof (cases r)
    case None
    with False at rv show ?thesis
      by (simp add: answer_request_at_def answer_request_def Let_def peer_counters_queue)
  next
    case (Some txr)
    obtain tx response where txr: "txr = (tx, response)"
      by fastforce
    show ?thesis
    proof (cases "Send env response v")
      case None
      with Some txr False at rv show ?thesis
        by (simp add: answer_request_at_def answer_request_def Let_def peer_counters_queue Send_queue)
    next
      case (Some sent)
      obtain result w where "sent = (result, w)"
        by fastforce
      with Some \<open>r = Some txr\<close> txr False at rv show ?thesis
        by (cases "result \<noteq> Success"; cases "ftype rx = Pending \<and> ftype tx = Ack")
          (simp_all only: answer_request_at_def answer_request_def Let_def peer_counters_queue
            Send_queue if_True if_False if_not_P if_P option.case option.map prod.case map_prod_simp
            id_apply queue_all_append append.simps append_assoc simp_thms)
    qed
  qed
qed

lemma Peer_step_queue:
  assumes "link_wf p"
  shows "Peer_step_at q1 q2 q3 q4 env p =
    map_option (queue_all (q3 @ q4)) (Peer_step env (queue_all (q1 @ q2) p))"
proof (cases "Receive (pe_recv env) (replicate kMaxPacketSize 0) 0 p")
  case None
  then show ?thesis
    by (simp add: Peer_step_at_def Peer_step_def Receive_queue)
next
  case (Some rs)
  obtain result request u where rs: "rs = (result, request, u)"
    by (cases rs) auto
  have "head_queued u"
    using Receive_view [OF Some [unfolded rs]] head_queued_view head_queued_wf [OF assms] by blast
  from answer_request_queue [OF this] Some rs show ?thesis
    by (simp add: Peer_step_at_def Peer_step_def Receive_queue split: option.split)
qed

section \<open>A pass of the coordinator\<close>

text \<open>Packets queued inside \<open>ChooseCoordinatorTxFrame\<close>, and after it.\<close>

definition exchange_request_at ::
  "bytes list \<Rightarrow> bytes list \<Rightarrow> send_env \<Rightarrow> coordinator \<Rightarrow> ((ExchangeResult + MacFrame) \<times> coordinator) option" where
  "exchange_request_at q2 q3 env s =
     (case ChooseCoordinatorTxFrame_at q2 s of
        (chosen, tx, s) \<Rightarrow>
          let s = queue_all q3 s in
          if \<not> chosen then Some (Inl ProtocolFailure, s)
          else case EncodeMacFrame tx of
            None \<Rightarrow> Some (Inl ProtocolFailure, s)
          | Some request \<Rightarrow>
              (case Send env request s of
                 None \<Rightarrow> None
               | Some (result, s) \<Rightarrow>
                   if result \<noteq> Success then
                     (let s = s\<lparr>c_tx_send_fail_count := c_tx_send_fail_count s + 1\<rparr>;
                          s = RecordSendFailure (ftype tx) s;
                          s = s\<lparr>fail_log_counter := fail_log_counter s + 1\<rparr>
                      in Some (Inl SendFailure, s))
                   else Some (Inr tx, s)))"

text \<open>The response is handled in one region; \<open>q4\<close> is queued before it, \<open>q5\<close> after it.\<close>

definition PerformExchange_at ::
  "bytes list \<Rightarrow> bytes list \<Rightarrow> bytes list \<Rightarrow> bytes list \<Rightarrow> exchange_env \<Rightarrow> coordinator
     \<Rightarrow> (ExchangeResult \<times> coordinator) option" where
  "PerformExchange_at q2 q3 q4 q5 env s =
     (case exchange_request_at q2 q3 (x_send env) s of
        None \<Rightarrow> None
      | Some (Inl result, s) \<Rightarrow> Some (result, queue_all (q4 @ q5) s)
      | Some (Inr tx, s) \<Rightarrow>
          map_option (\<lambda>(result, s). (result, queue_all q5 s))
            (exchange_response (x_recv env) tx (queue_all q4 s)))"

text \<open>A reset has one region too, at its start.\<close>

definition ConnectionReset_at ::
  "bytes list \<Rightarrow> bytes list \<Rightarrow> exchange_env \<Rightarrow> coordinator \<Rightarrow> (bool \<times> coordinator) option" where
  "ConnectionReset_at q2 q3 env s =
     (let s = queue_all q2 (begin_reset s) in
      case EncodeMacFrame reset_frame of
        None \<Rightarrow> Some (False, queue_all q3 s)
      | Some request \<Rightarrow>
          (case Send (x_send env) request s of
             None \<Rightarrow> None
           | Some (result, s) \<Rightarrow>
               let s = queue_all q3 s in
               if result \<noteq> Success then Some (False, s)
               else case Receive (x_recv env) (replicate kMaxPacketSize 0) kResponseTimeoutUs s of
                 None \<Rightarrow> None
               | Some (result, response, s) \<Rightarrow>
                   if result \<noteq> Success then Some (False, s)
                   else case DecodeMacFrame response of
                     None \<Rightarrow> Some (False, s)
                   | Some rx \<Rightarrow>
                       if ftype rx \<noteq> Reset then Some (False, s)
                       else Some (True, dev FlushTx (dev FlushRx s))))"

definition Run_step_at ::
  "bytes list \<Rightarrow> bytes list \<Rightarrow> bytes list \<Rightarrow> bytes list \<Rightarrow> bytes list \<Rightarrow> run_env \<Rightarrow> coordinator
     \<Rightarrow> coordinator option" where
  "Run_step_at q1 q2 q3 q4 q5 env s =
     (if disconnected s then
        (if loop_now env < next_retry_time_us s
         then Some (queue_all (q1 @ q2 @ q3 @ q4 @ q5) (dev (Sleep 1000) s))
         else case ConnectionReset_at q2 (q3 @ q4 @ q5) (run_exchange env) (queue_all q1 s) of
           None \<Rightarrow> None
         | Some (ok, s) \<Rightarrow> Some (if \<not> ok then retry_failed (fail_now env) s else session_up s))
      else
        let s = choose_poll_interval s;
            s = queue_all q1 (dev (Sleep (current_poll_interval_us s)) s)
        in if connection_reset_required s then
             (case ConnectionReset_at q2 (q3 @ q4 @ q5) (run_exchange env) s of
                None \<Rightarrow> None
              | Some (ok, s) \<Rightarrow>
                  Some (if \<not> ok
                        then HandleTransactionFailure (fail_now env) Fail_Protocol
                               (s\<lparr>reset_fail_log_counter := reset_fail_log_counter s + 1\<rparr>)
                        else session_up s))
           else
             (case PerformExchange_at q2 q3 q4 q5 (run_exchange env) s of
                None \<Rightarrow> None
              | Some (result, s) \<Rightarrow>
                  Some (coordinator_stats (stat_now env)
                          (after_exchange (fail_now env) result s))))"

lemma poll_interval_queue:
  "choose_poll_interval (queue_all qs s) = queue_all qs (choose_poll_interval s)"
  by (simp add: choose_poll_interval_def queue_all_eq)

lemma session_up_queue: "session_up (queue_all qs s) = queue_all qs (session_up s)"
  by (simp add: session_up_def queue_all_eq)

lemma begin_reset_queue: "begin_reset (queue_all qs s) = queue_all qs (begin_reset s)"
  by (simp add: begin_reset_def clear_session_def dev_def queue_all_eq Let_def)

lemma send_failure_queue:
  "RecordSendFailure ft (queue_all qs s) = queue_all qs (RecordSendFailure ft s)"
  by (cases ft) (simp_all add: RecordSendFailure_def queue_all_eq)

lemma retry_failed_queue: "retry_failed t (queue_all qs s) = queue_all qs (retry_failed t s)"
  by (simp add: retry_failed_def queue_all_eq Let_def)

lemma stats_queue: "coordinator_stats t (queue_all qs s) = queue_all qs (coordinator_stats t s)"
  by (simp add: coordinator_stats_def queue_all_eq Let_def)

lemma failure_queue:
  "HandleTransactionFailure t fl (queue_all qs s) = queue_all qs (HandleTransactionFailure t fl s)"
  by (cases fl) (simp_all add: HandleTransactionFailure_def queue_all_eq Let_def)

lemma after_exchange_queue:
  "after_exchange t r (queue_all qs s) = queue_all qs (after_exchange t r s)"
  by (cases r) (simp_all add: after_exchange_def failure_queue, simp add: queue_all_eq)

lemma dev_queue: "dev c (queue_all qs s) = queue_all qs (dev c s)"
  by (simp add: dev_def queue_all_eq)

lemma coordinator_counters_queue:
  "(queue_all qs s)\<lparr>c_tx_send_fail_count := n\<rparr> = queue_all qs (s\<lparr>c_tx_send_fail_count := n\<rparr>)"
  "(queue_all qs s)\<lparr>fail_log_counter := n\<rparr> = queue_all qs (s\<lparr>fail_log_counter := n\<rparr>)"
  "(queue_all qs s)\<lparr>c_rx_timeout_count := n\<rparr> = queue_all qs (s\<lparr>c_rx_timeout_count := n\<rparr>)"
  "(queue_all qs s)\<lparr>c_idle_log_counter := n\<rparr> = queue_all qs (s\<lparr>c_idle_log_counter := n\<rparr>)"
  "(queue_all qs s)\<lparr>reset_fail_log_counter := n\<rparr> = queue_all qs (s\<lparr>reset_fail_log_counter := n\<rparr>)"
  "(queue_all qs s)\<lparr>consecutive_local_data_frames := b\<rparr>
     = queue_all qs (s\<lparr>consecutive_local_data_frames := b\<rparr>)"
  by (simp_all add: queue_all_eq)

lemma coordinator_reads_queue:
  "c_tx_send_fail_count (queue_all qs s) = c_tx_send_fail_count s"
  "fail_log_counter (queue_all qs s) = fail_log_counter s"
  "c_rx_timeout_count (queue_all qs s) = c_rx_timeout_count s"
  "c_idle_log_counter (queue_all qs s) = c_idle_log_counter s"
  "reset_fail_log_counter (queue_all qs s) = reset_fail_log_counter s"
  "consecutive_local_data_frames (queue_all qs s) = consecutive_local_data_frames s"
  "disconnected (queue_all qs s) = disconnected s"
  "next_retry_time_us (queue_all qs s) = next_retry_time_us s"
  "current_poll_interval_us (queue_all qs s) = current_poll_interval_us s"
  "connection_reset_required (queue_all qs s) = connection_reset_required s"
  by (simp_all add: queue_all_eq)

lemmas coordinator_queue = dev_queue send_failure_queue coordinator_counters_queue
  coordinator_reads_queue

lemma ApplyPeerResponse_queue:
  assumes "head_queued s"
  shows "ApplyPeerResponse rx (queue_all qs s)
    = map_prod id (queue_all qs) (ApplyPeerResponse rx s)"
  by (simp add: ApplyPeerResponse_def Let_def CommitAckLocked_queue [OF assms]
      ConsumeDataFrameLocked_queue split: FrameType.split prod.split)
    (simp add: queue_all_eq)

lemma conclude_exchange_queue:
  assumes "head_queued s"
  shows "conclude_exchange tx rx (queue_all qs s)
    = map_prod id (queue_all qs) (conclude_exchange tx rx s)"
proof -
  let ?u = "if ftype tx = Pending \<and> ftype rx = Ack
    then s\<lparr>c_idle_log_counter := c_idle_log_counter s + 1\<rparr> else s"
  have u: "head_queued ?u"
    using assms by (simp add: head_queued_def)
  have v: "(if ftype tx = Pending \<and> ftype rx = Ack
      then (queue_all qs s)\<lparr>c_idle_log_counter := c_idle_log_counter (queue_all qs s) + 1\<rparr>
      else queue_all qs s) = queue_all qs ?u"
    by (simp add: coordinator_queue)
  obtain ok w where "ApplyPeerResponse rx ?u = (ok, w)"
    by fastforce
  then show ?thesis
    unfolding conclude_exchange_def Let_def v ApplyPeerResponse_queue [OF u]
    by (simp add: coordinator_queue)
qed

lemma exchange_response_queue:
  assumes "head_queued s"
  shows "exchange_response env tx (queue_all qs s)
    = map_option (map_prod id (queue_all qs)) (exchange_response env tx s)"
proof (cases "Receive env (replicate kMaxPacketSize 0) kResponseTimeoutUs s")
  case None
  then show ?thesis
    by (simp add: exchange_response_def Receive_queue)
next
  case (Some rs)
  obtain result response u where rs: "rs = (result, response, u)"
    by (cases rs) auto
  have u: "head_queued u"
    using Receive_view [OF Some [unfolded rs]] head_queued_view assms by blast
  show ?thesis
  proof (cases "result = Success")
    case True
    with Some rs show ?thesis
      by (cases "DecodeMacFrame response")
        (simp_all add: exchange_response_def Receive_queue conclude_exchange_queue [OF u])
  next
    case False
    with Some rs show ?thesis
      by (simp add: exchange_response_def Receive_queue coordinator_queue)
  qed
qed

lemma exchange_request_queue:
  "exchange_request_at q2 q3 env s
    = map_option (map_prod id (queue_all (q2 @ q3))) (exchange_request env s)"
proof -
  obtain ok tx u where ch: "ChooseCoordinatorTxFrame s = (ok, tx, u)"
    by (cases "ChooseCoordinatorTxFrame s") auto
  then have at: "ChooseCoordinatorTxFrame_at q2 s = (ok, tx, queue_all q2 u)"
    by (simp add: coordinator_choose_at queue_all_def)
  show ?thesis
  proof (cases "EncodeMacFrame tx")
    case None
    with ch at show ?thesis
      by (simp add: exchange_request_at_def exchange_request_def Let_def)
  next
    case (Some request)
    show ?thesis
    proof (cases "Send env request u")
      case None
      with ch at Some show ?thesis
        by (simp add: exchange_request_at_def exchange_request_def Let_def Send_queue)
    next
      case (Some sent)
      obtain result w where "sent = (result, w)"
        by fastforce
      with ch at Some \<open>EncodeMacFrame tx = Some request\<close> show ?thesis
        by (simp add: exchange_request_at_def exchange_request_def Let_def Send_queue
            coordinator_queue)
    qed
  qed
qed

lemma choose_head:
  assumes "head_queued s" and "ChooseCoordinatorTxFrame s = (ok, tx, s')"
  shows "head_queued s'"
  using assms
  by (auto simp: choose_eq Let_def choose_grant_def head_queued_def has_data_def frame_simps
      split: if_splits)

lemma request_head:
  assumes "head_queued s" and "exchange_request env s = Some (Inr tx, s')"
  shows "head_queued s'"
proof -
  obtain ok f u where ch: "ChooseCoordinatorTxFrame s = (ok, f, u)"
    by (cases "ChooseCoordinatorTxFrame s") auto
  with assms(2) obtain request result where "Send env request u = Some (result, s')"
    by (auto simp: exchange_request_def Let_def split: option.splits if_splits)
  from Send_view [OF this] choose_head [OF assms(1) ch] head_queued_view [of s' u]
  show ?thesis by simp
qed

lemma PerformExchange_queue:
  assumes "head_queued s"
  shows "PerformExchange_at q2 q3 q4 q5 env s
    = map_option (map_prod id (queue_all (q2 @ q3 @ q4 @ q5))) (PerformExchange env s)"
proof (cases "exchange_request (x_send env) s")
  case None
  then show ?thesis
    by (simp add: PerformExchange_at_def PerformExchange_def exchange_request_queue)
next
  case (Some ru)
  obtain r u where ru: "ru = (r, u)"
    by fastforce
  show ?thesis
  proof (cases r)
    case (Inl result)
    with Some ru show ?thesis
      by (simp add: PerformExchange_at_def PerformExchange_def exchange_request_queue)
  next
    case (Inr tx)
    with Some ru request_head [OF assms, of "x_send env" tx u] have u: "head_queued u"
      by simp
    from Some ru Inr show ?thesis
      by (cases "exchange_response (x_recv env) tx u")
        (auto simp: PerformExchange_at_def PerformExchange_def exchange_request_queue
          exchange_response_queue [OF u])
  qed
qed

lemma ConnectionReset_queue:
  "ConnectionReset_at q2 q3 env s
    = map_option (map_prod id (queue_all (q2 @ q3))) (ConnectionReset env s)"
proof -
  let ?u = "begin_reset s"
  show ?thesis
  proof (cases "Send (x_send env) reset_packet ?u")
    case None
    then show ?thesis
      by (simp add: ConnectionReset_at_def ConnectionReset_def Let_def encode_reset_frame Send_queue)
  next
    case (Some sent)
    obtain result v where sent: "sent = (result, v)"
      by fastforce
    note snd = Some [unfolded sent]
    show ?thesis
    proof (cases "Receive (x_recv env) (replicate kMaxPacketSize 0) kResponseTimeoutUs v")
      case None
      with snd show ?thesis
        by (simp add: ConnectionReset_at_def ConnectionReset_def Let_def encode_reset_frame
            Send_queue Receive_queue)
    next
      case (Some received)
      obtain r bs w where "received = (r, bs, w)"
        by (cases received) auto
      with Some snd show ?thesis
        by (simp add: ConnectionReset_at_def ConnectionReset_def Let_def encode_reset_frame
            Send_queue Receive_queue dev_queue split: option.split)
    qed
  qed
qed

lemma Run_step_queue:
  assumes "link_wf s"
  shows "Run_step_at q1 q2 q3 q4 q5 env s
    = map_option (queue_all (q2 @ q3 @ q4 @ q5)) (Run_step env (queue_all q1 s))"
proof (cases "disconnected s")
  case True
  show ?thesis
  proof (cases "loop_now env < next_retry_time_us s")
    case False
    with True show ?thesis
      by (cases "ConnectionReset (run_exchange env) (queue_all q1 s)")
        (auto simp: Run_step_at_def Run_step_def coordinator_queue ConnectionReset_queue
          retry_failed_queue session_up_queue)
  qed (use True in \<open>simp add: Run_step_at_def Run_step_def coordinator_queue\<close>)
next
  case up: False
  let ?u = "dev (Sleep (current_poll_interval_us (choose_poll_interval s))) (choose_poll_interval s)"
  have "tx_view ?u = tx_view s"
    by (simp add: tx_view_def dev_def choose_poll_interval_def)
  then have u: "head_queued (queue_all q1 ?u)"
    using assms head_queued_view head_queued_wf head_queued_queue by blast
  show ?thesis
  proof (cases "connection_reset_required (queue_all q1 ?u)")
    case True
    with up show ?thesis
      by (cases "ConnectionReset (run_exchange env) (queue_all q1 ?u)")
        (auto simp: Run_step_at_def Run_step_def Let_def coordinator_queue poll_interval_queue
          ConnectionReset_queue failure_queue session_up_queue)
  next
    case False
    with up show ?thesis
      by (cases "PerformExchange (run_exchange env) (queue_all q1 ?u)")
        (auto simp: Run_step_at_def Run_step_def Let_def coordinator_queue poll_interval_queue
          PerformExchange_queue [OF u] after_exchange_queue stats_queue)
  qed
qed

section \<open>The property\<close>

text \<open>C28. Passes are atomic for the tunnel thread. A pass of the
  coordinator's or the peer's \<open>Run\<close> during which the tunnel thread queues packets at any of the points
  where the lock is free does exactly what a pass without interference does, if the packets queued
  before the first region that reads the queue are queued before the pass and the others after it: the
  same frames are sent, the same packets reach the tunnel and the same state is left.\<close>

theorem passes_are_atomic:
  assumes "link_wf s" and "link_wf p"
  shows "Run_step_at q1 q2 q3 q4 q5 env s
      = map_option (fold tunnel_push (q2 @ q3 @ q4 @ q5)) (Run_step env (fold tunnel_push q1 s)) \<and>
    Peer_step_at r1 r2 r3 r4 penv p
      = map_option (fold tunnel_push (r3 @ r4)) (Peer_step penv (fold tunnel_push (r1 @ r2) p))"
  using Run_step_queue [OF assms(1)] Peer_step_queue [OF assms(2)]
  by (simp add: queue_all_def [abs_def])

text \<open>Packets queued during the first reset of a coordinator, which fails, and during the answer of a
  peer to a RESET: both queues have them in order.\<close>

theorem passes_are_atomic_witness:
  "(\<exists>s'. Run_step_at [[1]] [[2]] [] [[3]] [] deaf_env start_coordinator = Some s' \<and>
      read_buffer s' = [[1], [2], [3]]) \<and>
   (\<exists>p'. Peer_step_at [[1]] [] [[2]] [[3]]
        \<lparr>pe_recv = good_recv reset_packet, pe_send = good_send, pe_stat_now = 0\<rparr> start_peer = Some p' \<and>
      read_buffer p' = [[1], [2], [3]])"
proof -
  let ?env = "\<lparr>pe_recv = good_recv reset_packet, pe_send = good_send, pe_stat_now = 0\<rparr>"
  let ?s = "fold tunnel_push [[1]] start_coordinator" and ?p = "fold tunnel_push [[1]] start_peer"
  have wf: "link_wf start_peer"
    using link_wf_view [OF start_peer_views] link_wf_init by simp
  have wf': "link_wf start_coordinator"
    by (simp add: start_coordinator_def PrimaryRadioInterface_def Let_def dev_def link.defs
        coordinator.defs link_wf_def RadioInterface_init_def)
  have b: "read_buffer start_coordinator = []" "read_buffer start_peer = []"
    using start_peer_views(1) by (simp_all add: start_coordinator_def PrimaryRadioInterface_def
        Let_def dev_def link.defs coordinator.defs RadioInterface_init_def tx_view_def)
  have "\<exists>s'. Run_step deaf_env ?s = Some s' \<and> read_buffer s' = [[1]]"
    by (simp add: Run_step_def start_coordinator_def PrimaryRadioInterface_def Let_def dev_def
        coordinator.defs link.defs choose_poll_interval_def ConnectionReset_def encode_reset_frame
        begin_reset_def clear_session_def deaf_env_def Send_def reset_packet_def tunnel_push_def
        RadioInterface_init_def HandleTransactionFailure_def RecoverAfterTransmitFailure_def
        kDisconnectFailureThreshold_def)
  moreover have "\<exists>p'. Peer_step ?env ?p = Some p' \<and> read_buffer p' = [[1]]"
  proof -
    have "read_into reset_packet (replicate 32 0) = reset_packet" "length reset_packet \<le> 32"
      by (simp_all add: read_into_full reset_packet_def)
    moreover from this have "\<exists>p'. HandleReset good_send (RecordRx reset_frame u) = Some (True, p')" for u
      by (simp add: HandleReset_def Let_def peer_reset_encode Send_good)
    ultimately obtain p' where
      reset: "HandleReset good_send (RecordRx reset_frame (dev ReadRadio (dev StartListening ?p)))
        = Some (True, p')" and
      step: "Peer_step ?env ?p = Some p'"
      using decode_reset_packet
      by (auto simp: Peer_step_def Receive_good answer_request_def reset_frame_def)
    have "read_buffer p' = read_buffer ?p"
      using HandleReset_views(1) [OF reset]
      by (simp add: tx_view_def clear_session_def RecordRx_def dev_def split: FrameType.split)
    with b step show ?thesis
      by (simp add: tunnel_push_def)
  qed
  ultimately show ?thesis
    using passes_are_atomic [OF wf' wf, of "[[1]]" "[[2]]" "[]" "[[3]]" "[]" deaf_env
        "[[1]]" "[]" "[[2]]" "[[3]]" ?env]
    by (auto simp: tunnel_push_def)
qed

end
