(* ===== verification/Fine_System.thy ===== *)
theory Fine_System
  imports Interleaving Session_Run
begin

text \<open>
  The system of \<open>Link_System\<close> with finer steps: the tunnel threads queue packets not only between the
  steps of the main threads but also inside them, at every point where \<open>read_buffer_mutex_\<close> is free.
  Every such step is queueing, a step of \<open>Link_System\<close>, and queueing again, so the invariant of that
  system holds here too, and with it the delivery guarantee.
\<close>

section \<open>The halves of a pass of the coordinator\<close>

definition coordinator_request_at ::
  "bytes list \<Rightarrow> bytes list \<Rightarrow> bytes list \<Rightarrow> run_env \<Rightarrow> coordinator
     \<Rightarrow> (MacFrame option \<times> coordinator) option" where
  "coordinator_request_at q1 q2 q3 env s =
     (let s = choose_poll_interval s;
          s = queue_all q1 (dev (Sleep (current_poll_interval_us s)) s)
      in case exchange_request_at q2 q3 (x_send (run_exchange env)) s of
           None \<Rightarrow> None
         | Some (Inl result, s) \<Rightarrow> Some (None, finish_pass env result s)
         | Some (Inr tx, s) \<Rightarrow> Some (Some tx, s))"

definition coordinator_response_at ::
  "bytes list \<Rightarrow> bytes list \<Rightarrow> run_env \<Rightarrow> MacFrame \<Rightarrow> coordinator
     \<Rightarrow> (ExchangeResult \<times> coordinator) option" where
  "coordinator_response_at q4 q5 env tx s =
     (case exchange_response (x_recv (run_exchange env)) tx (queue_all q4 s) of
        None \<Rightarrow> None
      | Some (result, s) \<Rightarrow> Some (result, finish_pass env result (queue_all q5 s)))"

lemma finish_pass_queue: "finish_pass env r (queue_all qs s) = queue_all qs (finish_pass env r s)"
  by (simp add: finish_pass_def after_exchange_queue stats_queue)

lemma coordinator_request_queue:
  "coordinator_request_at q1 q2 q3 env s =
     map_option (map_prod id (queue_all (q2 @ q3))) (coordinator_request env (queue_all q1 s))"
proof -
  let ?u = "queue_all q1 (dev (Sleep (current_poll_interval_us (choose_poll_interval s)))
    (choose_poll_interval s))"
  show ?thesis
  proof (cases "exchange_request (x_send (run_exchange env)) ?u")
    case None
    then show ?thesis
      by (simp add: coordinator_request_at_def coordinator_request_def Let_def poll_interval_queue
          coordinator_queue exchange_request_queue)
  next
    case (Some ru)
    obtain r u where "ru = (r, u)"
      by fastforce
    with Some show ?thesis
      by (cases r) (simp_all add: coordinator_request_at_def coordinator_request_def Let_def
          poll_interval_queue coordinator_queue exchange_request_queue finish_pass_queue)
  qed
qed

lemma coordinator_response_queue:
  "coordinator_response_at q4 q5 env tx s =
     map_option (map_prod id (queue_all q5)) (coordinator_response env tx (queue_all q4 s))"
  by (simp add: coordinator_response_at_def coordinator_response_def finish_pass_queue
      split: option.split)

section \<open>Queueing in a system\<close>

definition co_push :: "bytes list \<Rightarrow> system \<Rightarrow> system" where
  "co_push qs \<sigma> = \<sigma>\<lparr>co := queue_all qs (co \<sigma>), co_hist := (fst (co_hist \<sigma>) @ qs, snd (co_hist \<sigma>))\<rparr>"

definition pe_push :: "bytes list \<Rightarrow> system \<Rightarrow> system" where
  "pe_push qs \<sigma> = \<sigma>\<lparr>pe := queue_all qs (pe \<sigma>), pe_hist := (fst (pe_hist \<sigma>) @ qs, snd (pe_hist \<sigma>))\<rparr>"

lemma co_push_Cons: "co_push (q # qs) \<sigma> = co_push qs (co_push [q] \<sigma>)"
  by (simp add: co_push_def)

lemma pe_push_Cons: "pe_push (q # qs) \<sigma> = pe_push qs (pe_push [q] \<sigma>)"
  by (simp add: pe_push_def)

lemma push_one:
  "co_push [q] \<sigma> = \<sigma>\<lparr>co := tunnel_push q (co \<sigma>), co_pc := co_pc \<sigma>,
     co_hist := (fst (co_hist \<sigma>) @ [q], snd (co_hist \<sigma>))\<rparr>"
  "pe_push [q] \<sigma> = \<sigma>\<lparr>pe := tunnel_push q (pe \<sigma>), pe_pc := pe_pc \<sigma>,
     pe_hist := (fst (pe_hist \<sigma>) @ [q], snd (pe_hist \<sigma>))\<rparr>"
  by (simp_all add: co_push_def pe_push_def queue_all_def)

abbreviation valid_packets :: "bytes list \<Rightarrow> bool" where
  "valid_packets qs \<equiv> list_all IsValidIpPacket qs"

lemma inv_co_pushes: "sys_inv \<sigma> \<Longrightarrow> valid_packets qs \<Longrightarrow> sys_inv (co_push qs \<sigma>)"
proof (induction qs arbitrary: \<sigma>)
  case (Cons q qs)
  then have "sys_inv (co_push [q] \<sigma>)"
    unfolding push_one by (intro inv_co_push) simp_all
  with Cons show ?case
    by (subst co_push_Cons) simp
qed (simp add: co_push_def)

lemma inv_pe_pushes: "sys_inv \<sigma> \<Longrightarrow> valid_packets qs \<Longrightarrow> sys_inv (pe_push qs \<sigma>)"
proof (induction qs arbitrary: \<sigma>)
  case (Cons q qs)
  then have "sys_inv (pe_push [q] \<sigma>)"
    unfolding push_one by (intro inv_pe_push) simp_all
  with Cons show ?case
    by (subst pe_push_Cons) simp
qed (simp add: pe_push_def)

section \<open>Fine steps\<close>

text \<open>
  Each step of a main thread takes the packets queued at its free points. How long a queue may get is
  not asked here (\<open>queues_bounded\<close> does): a thread may queue any number of valid packets anywhere.
\<close>

inductive fine_step :: "system \<Rightarrow> system \<Rightarrow> bool" where
  coarse: "sys_step \<sigma> \<sigma>' \<Longrightarrow> fine_step \<sigma> \<sigma>'"
| co_queues: "valid_packets qs \<Longrightarrow> fine_step \<sigma> (co_push qs \<sigma>)"
| pe_queues: "valid_packets qs \<Longrightarrow> fine_step \<sigma> (pe_push qs \<sigma>)"
| fine_request:
  "valid_packets (q1 @ q2 @ q3) \<Longrightarrow> \<not> connection_reset_required (co \<sigma>) \<Longrightarrow> awaiting \<sigma> = None \<Longrightarrow>
   coordinator_request_at q1 q2 q3 env (co \<sigma>) = Some (tx, s) \<Longrightarrow>
     fine_step \<sigma> (\<sigma>\<lparr>co := s, awaiting := tx, to_peer := to_peer \<sigma> @ sent_between (co \<sigma>) s,
       co_hist := (fst (co_hist \<sigma>) @ q1 @ q2 @ q3, snd (co_hist \<sigma>))\<rparr>)"
| fine_response:
  "valid_packets (q4 @ q5) \<Longrightarrow> awaiting \<sigma> = Some tx \<Longrightarrow> to_coord \<sigma> = p # ps \<Longrightarrow>
   rx_fifo (x_recv (run_exchange env)) = p \<Longrightarrow>
   coordinator_response_at q4 q5 env tx (co \<sigma>) = Some (result, s) \<Longrightarrow> result \<noteq> TimeoutFailure \<Longrightarrow>
     fine_step \<sigma> (\<sigma>\<lparr>co := s, awaiting := None, to_coord := ps,
       co_hist := (fst (co_hist \<sigma>) @ q4 @ q5, snd (co_hist \<sigma>))\<rparr>)"
| fine_timeout:
  "valid_packets (q4 @ q5) \<Longrightarrow> awaiting \<sigma> = Some tx \<Longrightarrow>
   coordinator_response_at q4 q5 env tx (co \<sigma>) = Some (TimeoutFailure, s) \<Longrightarrow>
     fine_step \<sigma> (\<sigma>\<lparr>co := s, awaiting := None,
       co_hist := (fst (co_hist \<sigma>) @ q4 @ q5, snd (co_hist \<sigma>))\<rparr>)"
| fine_receive:
  "valid_packets (q1 @ q2 @ q3 @ q4) \<Longrightarrow> to_peer \<sigma> = p # ps \<Longrightarrow> rx_fifo (pe_recv penv) = p \<Longrightarrow>
   WaitForRxReady (pe_recv penv) (irq_line (pe \<sigma>) \<noteq> None) 0 = Some Success \<Longrightarrow>
   Peer_step_at q1 q2 q3 q4 penv (pe \<sigma>) = Some r \<Longrightarrow>
     fine_step \<sigma> (\<sigma>\<lparr>pe := r, to_peer := ps, to_coord := to_coord \<sigma> @ sent_between (pe \<sigma>) r,
       pe_hist := (fst (pe_hist \<sigma>) @ q1 @ q2 @ q3 @ q4, snd (pe_hist \<sigma>))\<rparr>)"
| fine_reset_fails:
  "valid_packets (q1 @ q2 @ q3 @ q4 @ q5) \<Longrightarrow> connection_reset_required (co \<sigma>) \<Longrightarrow>
   Run_step_at q1 q2 q3 q4 q5 env (co \<sigma>) = Some s \<Longrightarrow> connection_reset_required s \<Longrightarrow>
     fine_step \<sigma> (\<sigma>\<lparr>co := s, to_peer := to_peer \<sigma> @ sent_between (co \<sigma>) s,
       co_hist := (fst (co_hist \<sigma>) @ q1 @ q2 @ q3 @ q4 @ q5, snd (co_hist \<sigma>))\<rparr>)"
| fine_reset_succeeds:
  "valid_packets (q1 @ q2 @ q3 @ q4 @ q5 @ r1 @ r2 @ r3 @ r4) \<Longrightarrow>
   connection_reset_required (co \<sigma>) \<Longrightarrow> only_resets (to_peer \<sigma> @ to_coord \<sigma>) \<Longrightarrow>
   Run_step_at q1 q2 q3 q4 q5 env (co \<sigma>) = Some s \<Longrightarrow> \<not> connection_reset_required s \<Longrightarrow>
   sent_between (co \<sigma>) s = [rx_fifo (pe_recv penv)] \<Longrightarrow>
   WaitForRxReady (pe_recv penv) (irq_line (pe \<sigma>) \<noteq> None) 0 = Some Success \<Longrightarrow>
   Peer_step_at r1 r2 r3 r4 penv (pe \<sigma>) = Some r \<Longrightarrow>
   sent_between (pe \<sigma>) r = [rx_fifo (x_recv (run_exchange env))] \<Longrightarrow> only_resets (xs @ ys) \<Longrightarrow>
     fine_step \<sigma> (\<sigma>\<lparr>co := s, pe := r, to_peer := xs, to_coord := ys, co_hist := (read_buffer s, tun_out r),
       pe_hist := (read_buffer r, tun_out s)\<rparr>)"

inductive fine_reachable :: "system \<Rightarrow> bool" where
  start: "reachable \<sigma> \<Longrightarrow> fine_reachable \<sigma>"
| step: "fine_reachable \<sigma> \<Longrightarrow> fine_step \<sigma> \<sigma>' \<Longrightarrow> fine_reachable \<sigma>'"

section \<open>A fine step is queueing, a coarse step, queueing\<close>

lemma queue_all_fields [simp]:
  "connection_reset_required (queue_all qs (c :: coordinator)) = connection_reset_required c"
  "irq_line (queue_all qs s) = irq_line s" "tun_out (queue_all qs s) = tun_out s"
  "sent_between (queue_all qs s) s' = sent_between s s'"
  "sent_between s (queue_all qs s') = sent_between s s'"
  "read_buffer (queue_all qs s) = read_buffer s @ qs"
  by (simp_all add: queue_all_eq sent_between_def)

lemma push_fields [simp]:
  "co (co_push qs \<sigma>) = queue_all qs (co \<sigma>)" "pe (co_push qs \<sigma>) = pe \<sigma>"
  "co (pe_push qs \<sigma>) = co \<sigma>" "pe (pe_push qs \<sigma>) = queue_all qs (pe \<sigma>)"
  "to_peer (co_push qs \<sigma>) = to_peer \<sigma>" "to_coord (co_push qs \<sigma>) = to_coord \<sigma>"
  "to_peer (pe_push qs \<sigma>) = to_peer \<sigma>" "to_coord (pe_push qs \<sigma>) = to_coord \<sigma>"
  "awaiting (co_push qs \<sigma>) = awaiting \<sigma>" "awaiting (pe_push qs \<sigma>) = awaiting \<sigma>"
  by (simp_all add: co_push_def pe_push_def)

lemma inv_fine_request:
  assumes inv: "sys_inv \<sigma>" and v: "valid_packets (q1 @ q2 @ q3)"
    and up: "\<not> connection_reset_required (co \<sigma>)"
    and req: "coordinator_request_at q1 q2 q3 env (co \<sigma>) = Some (tx, s)"
  shows "sys_inv (\<sigma>\<lparr>co := s, awaiting := tx, to_peer := to_peer \<sigma> @ sent_between (co \<sigma>) s,
    co_hist := (fst (co_hist \<sigma>) @ q1 @ q2 @ q3, snd (co_hist \<sigma>))\<rparr>)" (is "sys_inv ?\<sigma>'")
proof -
  let ?\<sigma> = "co_push q1 \<sigma>"
  from req obtain u where
    u: "coordinator_request env (co ?\<sigma>) = Some (tx, u)" "s = queue_all (q2 @ q3) u"
    by (auto simp: coordinator_request_queue)
  have "sys_inv ?\<sigma>"
    using inv v by (intro inv_co_pushes) simp_all
  from inv_co_request [OF this _ u(1)] up v
  have "sys_inv (co_push (q2 @ q3)
      (?\<sigma>\<lparr>co := u, awaiting := tx, to_peer := to_peer ?\<sigma> @ sent_between (co ?\<sigma>) u\<rparr>))"
    by (intro inv_co_pushes) simp_all
  also have "co_push (q2 @ q3)
      (?\<sigma>\<lparr>co := u, awaiting := tx, to_peer := to_peer ?\<sigma> @ sent_between (co ?\<sigma>) u\<rparr>) = ?\<sigma>'"
    unfolding u(2) co_push_def by (rule system.equality) simp_all
  finally show ?thesis .
qed

text \<open>The response half, whatever its result.\<close>

lemma inv_fine_response:
  assumes inv: "sys_inv \<sigma>" and v: "valid_packets (q4 @ q5)"
    and res: "coordinator_response_at q4 q5 env tx (co \<sigma>) = Some (result, s)"
    and coarse: "\<And>u. coordinator_response env tx (co (co_push q4 \<sigma>)) = Some (result, u) \<Longrightarrow>
      sys_inv (co_push q4 \<sigma>) \<Longrightarrow> sys_inv ((co_push q4 \<sigma>)\<lparr>co := u, awaiting := None, to_coord := ps\<rparr>)"
  shows "sys_inv (\<sigma>\<lparr>co := s, awaiting := None, to_coord := ps,
    co_hist := (fst (co_hist \<sigma>) @ q4 @ q5, snd (co_hist \<sigma>))\<rparr>)" (is "sys_inv ?\<sigma>'")
proof -
  let ?\<sigma> = "co_push q4 \<sigma>"
  from res obtain u where
    u: "coordinator_response env tx (co ?\<sigma>) = Some (result, u)" "s = queue_all q5 u"
    by (auto simp: coordinator_response_queue)
  have "sys_inv ?\<sigma>"
    using inv v by (intro inv_co_pushes) simp_all
  from coarse [OF u(1) this] v
  have "sys_inv (co_push q5 (?\<sigma>\<lparr>co := u, awaiting := None, to_coord := ps\<rparr>))"
    by (intro inv_co_pushes) simp_all
  also have "co_push q5 (?\<sigma>\<lparr>co := u, awaiting := None, to_coord := ps\<rparr>) = ?\<sigma>'"
    unfolding u(2) co_push_def by (rule system.equality) simp_all
  finally show ?thesis .
qed

lemma inv_fine_receive:
  assumes inv: "sys_inv \<sigma>" and v: "valid_packets (q1 @ q2 @ q3 @ q4)"
    and ch: "to_peer \<sigma> = p # ps" "rx_fifo (pe_recv penv) = p"
    and ready: "WaitForRxReady (pe_recv penv) (irq_line (pe \<sigma>) \<noteq> None) 0 = Some Success"
    and st: "Peer_step_at q1 q2 q3 q4 penv (pe \<sigma>) = Some r"
  shows "sys_inv (\<sigma>\<lparr>pe := r, to_peer := ps, to_coord := to_coord \<sigma> @ sent_between (pe \<sigma>) r,
    pe_hist := (fst (pe_hist \<sigma>) @ q1 @ q2 @ q3 @ q4, snd (pe_hist \<sigma>))\<rparr>)" (is "sys_inv ?\<sigma>'")
proof -
  let ?\<sigma> = "pe_push (q1 @ q2) \<sigma>"
  have "link_wf (pe \<sigma>)"
    using inv by (simp add: sys_inv_def)
  from Peer_step_queue [OF this] st obtain u where
    u: "Peer_step penv (pe ?\<sigma>) = Some u" "r = queue_all (q3 @ q4) u"
    by auto
  have "sys_inv ?\<sigma>"
    using inv v by (intro inv_pe_pushes) simp_all
  from inv_pe_receive [OF this _ ch(2) _ u(1)] v ch(1) ready
  have "sys_inv (pe_push (q3 @ q4)
      (?\<sigma>\<lparr>pe := u, to_peer := ps, to_coord := to_coord ?\<sigma> @ sent_between (pe ?\<sigma>) u\<rparr>))"
    by (intro inv_pe_pushes) simp_all
  also have "pe_push (q3 @ q4)
      (?\<sigma>\<lparr>pe := u, to_peer := ps, to_coord := to_coord ?\<sigma> @ sent_between (pe ?\<sigma>) u\<rparr>) = ?\<sigma>'"
    unfolding u(2) pe_push_def by (rule system.equality) simp_all
  finally show ?thesis .
qed

lemma inv_fine_reset_fails:
  assumes inv: "sys_inv \<sigma>" and v: "valid_packets (q1 @ q2 @ q3 @ q4 @ q5)"
    and crr: "connection_reset_required (co \<sigma>)"
    and st: "Run_step_at q1 q2 q3 q4 q5 env (co \<sigma>) = Some s" and still: "connection_reset_required s"
  shows "sys_inv (\<sigma>\<lparr>co := s, to_peer := to_peer \<sigma> @ sent_between (co \<sigma>) s,
    co_hist := (fst (co_hist \<sigma>) @ q1 @ q2 @ q3 @ q4 @ q5, snd (co_hist \<sigma>))\<rparr>)" (is "sys_inv ?\<sigma>'")
proof -
  let ?\<sigma> = "co_push q1 \<sigma>"
  have "link_wf (co \<sigma>)"
    using inv by (simp add: sys_inv_def)
  from Run_step_queue [OF this] st obtain u where
    u: "Run_step env (co ?\<sigma>) = Some u" "s = queue_all (q2 @ q3 @ q4 @ q5) u"
    by auto
  have "sys_inv ?\<sigma>"
    using inv v by (intro inv_co_pushes) simp_all
  from inv_reset_fails [OF this _ u(1)] v crr still u(2)
  have "sys_inv (co_push (q2 @ q3 @ q4 @ q5)
      (?\<sigma>\<lparr>co := u, to_peer := to_peer ?\<sigma> @ sent_between (co ?\<sigma>) u\<rparr>))"
    by (intro inv_co_pushes) simp_all
  also have "co_push (q2 @ q3 @ q4 @ q5)
      (?\<sigma>\<lparr>co := u, to_peer := to_peer ?\<sigma> @ sent_between (co ?\<sigma>) u\<rparr>) = ?\<sigma>'"
    unfolding u(2) co_push_def by (rule system.equality) simp_all
  finally show ?thesis .
qed

lemma inv_fine_reset_succeeds:
  assumes inv: "sys_inv \<sigma>" and v: "valid_packets (q1 @ q2 @ q3 @ q4 @ q5 @ r1 @ r2 @ r3 @ r4)"
    and crr: "connection_reset_required (co \<sigma>)"
    and st: "Run_step_at q1 q2 q3 q4 q5 env (co \<sigma>) = Some s" and up: "\<not> connection_reset_required s"
    and req: "sent_between (co \<sigma>) s = [rx_fifo (pe_recv penv)]"
    and ready: "WaitForRxReady (pe_recv penv) (irq_line (pe \<sigma>) \<noteq> None) 0 = Some Success"
    and pst: "Peer_step_at r1 r2 r3 r4 penv (pe \<sigma>) = Some r" and air: "only_resets (xs @ ys)"
  shows "sys_inv (\<sigma>\<lparr>co := s, pe := r, to_peer := xs, to_coord := ys,
    co_hist := (read_buffer s, tun_out r), pe_hist := (read_buffer r, tun_out s)\<rparr>)" (is "sys_inv ?\<sigma>'")
proof -
  let ?\<sigma> = "pe_push (r1 @ r2) (co_push q1 \<sigma>)"
  have wf: "link_wf (co \<sigma>)" "link_wf (pe \<sigma>)"
    using inv by (simp_all add: sys_inv_def)
  from Run_step_queue [OF wf(1)] st obtain u where
    u: "Run_step env (co ?\<sigma>) = Some u" "s = queue_all (q2 @ q3 @ q4 @ q5) u"
    by auto
  from Peer_step_queue [OF wf(2)] pst obtain w where
    w: "Peer_step penv (pe ?\<sigma>) = Some w" "r = queue_all (r3 @ r4) w"
    by auto
  let ?\<tau> = "?\<sigma>\<lparr>co := u, pe := w, to_peer := xs, to_coord := ys, co_hist := (read_buffer u, tun_out w),
    pe_hist := (read_buffer w, tun_out u)\<rparr>"
  have "sys_inv ?\<sigma>"
    using inv v by (intro inv_pe_pushes inv_co_pushes) simp_all
  from inv_reset_succeeds [OF this _ u(1) _ _ _ w(1) air] v crr up req ready u(2) w(2)
  have "sys_inv (pe_push (r3 @ r4) (co_push (q2 @ q3 @ q4 @ q5) ?\<tau>))"
    by (intro inv_pe_pushes inv_co_pushes) simp_all
  also have "pe_push (r3 @ r4) (co_push (q2 @ q3 @ q4 @ q5) ?\<tau>) = ?\<sigma>'"
    unfolding u(2) w(2) co_push_def pe_push_def by (rule system.equality) simp_all
  finally show ?thesis .
qed

lemma fine_step_inv:
  assumes "fine_step \<sigma> \<sigma>'" and inv: "sys_inv \<sigma>"
  shows "sys_inv \<sigma>'"
  using assms(1)
proof (cases rule: fine_step.cases)
  case coarse
  with inv show ?thesis by (rule sys_step_inv)
next
  case (co_queues qs)
  with inv show ?thesis by (simp add: inv_co_pushes)
next
  case (pe_queues qs)
  with inv show ?thesis by (simp add: inv_pe_pushes)
next
  case (fine_request q1 q2 q3 env tx s)
  show ?thesis
    unfolding fine_request(1) by (rule inv_fine_request [OF inv fine_request(2,3,5)])
next
  case (fine_response q4 q5 tx p ps env result s)
  have "sys_inv ((co_push q4 \<sigma>)\<lparr>co := u, awaiting := None, to_coord := ps\<rparr>)"
    if "coordinator_response env tx (co (co_push q4 \<sigma>)) = Some (result, u)" "sys_inv (co_push q4 \<sigma>)" for u
    using inv_co_response [OF that(2) _ _ fine_response(5) that(1)] fine_response(3,4,7) by simp
  then show ?thesis
    unfolding fine_response(1) by (rule inv_fine_response [OF inv fine_response(2,6)])
next
  case (fine_timeout q4 q5 tx env s)
  have "sys_inv ((co_push q4 \<sigma>)\<lparr>co := u, awaiting := None, to_coord := to_coord \<sigma>\<rparr>)"
    if "coordinator_response env tx (co (co_push q4 \<sigma>)) = Some (TimeoutFailure, u)"
      "sys_inv (co_push q4 \<sigma>)" for u
  proof -
    have "sys_inv ((co_push q4 \<sigma>)\<lparr>co := u, awaiting := None\<rparr>)"
      using inv_co_timeout [OF that(2) _ that(1)] fine_timeout(3) by simp
    also have "(co_push q4 \<sigma>)\<lparr>co := u, awaiting := None\<rparr>
        = (co_push q4 \<sigma>)\<lparr>co := u, awaiting := None, to_coord := to_coord \<sigma>\<rparr>"
      by (rule system.equality) simp_all
    finally show ?thesis .
  qed
  then have "sys_inv (\<sigma>\<lparr>co := s, awaiting := None, to_coord := to_coord \<sigma>,
      co_hist := (fst (co_hist \<sigma>) @ q4 @ q5, snd (co_hist \<sigma>))\<rparr>)"
    by (rule inv_fine_response [OF inv fine_timeout(2,4)])
  also have "\<sigma>\<lparr>co := s, awaiting := None, to_coord := to_coord \<sigma>,
      co_hist := (fst (co_hist \<sigma>) @ q4 @ q5, snd (co_hist \<sigma>))\<rparr> = \<sigma>'"
    unfolding fine_timeout(1) by (rule system.equality) simp_all
  finally show ?thesis .
next
  case (fine_receive q1 q2 q3 q4 p ps penv r)
  show ?thesis
    unfolding fine_receive(1) by (rule inv_fine_receive [OF inv fine_receive(2-6)])
next
  case (fine_reset_fails q1 q2 q3 q4 q5 env s)
  show ?thesis
    unfolding fine_reset_fails(1) by (rule inv_fine_reset_fails [OF inv fine_reset_fails(2-5)])
next
  case (fine_reset_succeeds q1 q2 q3 q4 q5 r1 r2 r3 r4 env s penv r xs ys)
  show ?thesis
    unfolding fine_reset_succeeds(1)
    by (rule inv_fine_reset_succeeds [OF inv fine_reset_succeeds(2,3,5-9,11)])
qed

lemma fine_reachable_inv: "fine_reachable \<sigma> \<Longrightarrow> sys_inv \<sigma>"
  by (induction rule: fine_reachable.induct) (simp_all add: reachable_inv fine_step_inv)

section \<open>The property\<close>

text \<open>C2. The delivery guarantee does not depend on how the threads interleave. Also
  in the states that are reached when the tunnel threads queue packets at any point of a pass where the
  lock is free, what a receiver has written to its tunnel since the session began is exactly the valid
  IP packets, in order and each once, of a prefix of the packets offered, and the rest is waiting.\<close>

theorem delivery_under_interleaving:
  assumes "fine_reachable \<sigma>" and "\<not> connection_reset_required (co \<sigma>)"
  shows "(\<exists>done. fst (co_hist \<sigma>) = done @ waiting (co \<sigma>) (pe \<sigma>) \<and>
      tun_out (pe \<sigma>) = snd (co_hist \<sigma>) @ filter IsValidIpPacket done) \<and>
    (\<exists>done. fst (pe_hist \<sigma>) = done @ waiting (pe \<sigma>) (co \<sigma>) \<and>
      tun_out (co \<sigma>) = snd (pe_hist \<sigma>) @ filter IsValidIpPacket done)"
  using session_delivery [OF fine_reachable_inv [OF assms(1)] assms(2)] .

text \<open>Two packets are queued inside the request half of a pass.\<close>

theorem delivery_under_interleaving_witness:
  "\<exists>(\<sigma> :: system) offered. fst (co_hist \<sigma>) = offered @ [ping, ping] \<and>
     (\<exists>done. fst (co_hist \<sigma>) = done @ waiting (co \<sigma>) (pe \<sigma>) \<and>
       tun_out (pe \<sigma>) = snd (co_hist \<sigma>) @ filter IsValidIpPacket done)"
proof -
  obtain \<sigma> where r: "reachable \<sigma>" and q: "quiet \<sigma>"
    using ping_queued by blast
  let ?\<tau> = "co_push [ping] \<sigma>"
  have inv: "sys_inv ?\<tau>"
    using reachable_inv [OF r] ping(1) by (intro inv_co_pushes) simp_all
  then obtain f s where "coordinator_request (good_run []) (co ?\<tau>) = Some (Some f, s)"
    using good_request [of "co ?\<tau>" "[]"] q by (auto simp: sys_inv_def quiet_def)
  then have req: "coordinator_request_at [ping] [ping] [] (good_run []) (co \<sigma>)
      = Some (Some f, queue_all [ping] s)"
    by (simp add: coordinator_request_queue)
  let ?s = "queue_all [ping] s"
  let ?\<sigma> = "\<sigma>\<lparr>co := ?s, awaiting := Some f, to_peer := to_peer \<sigma> @ sent_between (co \<sigma>) ?s,
    co_hist := (fst (co_hist \<sigma>) @ [ping] @ [ping] @ [], snd (co_hist \<sigma>))\<rparr>"
  have "fine_step \<sigma> ?\<sigma>"
    using q ping(1) by (intro fine_request [OF _ _ _ req]) (simp_all add: quiet_def)
  with r have fr: "fine_reachable ?\<sigma>"
    using fine_reachable.start fine_reachable.step by blast
  then have "\<not> connection_reset_required (co ?\<sigma>)"
    using fine_reachable_inv [OF fr] by (simp add: sys_inv_def)
  from delivery_under_interleaving [OF fr this] show ?thesis
    by (intro exI [of _ ?\<sigma>] exI [of _ "fst (co_hist \<sigma>)"]) simp
qed

end
