(* ===== verification/Spec2Isabelle.thy ===== *)
theory Spec2Isabelle
  imports Fair_Delivery Air_Types Timing Logs Fine_System
begin

text \<open>
  A verification of nerfnet (\<open>src/nerfnet/\<close>): IP tunnelled over a pair of nRF24L01 radios.

  \<^bold>\<open>The program.\<close> One process runs on each of two machines. \<open>main\<close> (\<open>net/nerfnet_main.cc\<close>) opens a TUN
  interface, configures it, and runs either a coordinator (\<open>PrimaryRadioInterface\<close>) or a peer
  (\<open>SecondaryRadioInterface\<close>). Both extend \<open>RadioInterface\<close>, which holds a queue of IP packets. A tunnel
  thread reads packets from the TUN interface into the queue; the main thread cuts them into fragments
  of at most 27 bytes, sends each in a 32-byte MAC frame and keeps it until its sequence number is
  acknowledged, and at the other end collects the fragments and writes every completed packet that is
  a valid IP packet to the tunnel. The coordinator speaks first in every exchange (PENDING, GRANT, DATA
  or ACK) and the peer answers. Repeated failures make the coordinator count as disconnected; it then
  retries a RESET handshake, with a backoff, which starts both directions anew.

  \<^bold>\<open>The model.\<close> Objects are records: \<open>link\<close> for the members of \<open>RadioInterface\<close>, extended by
  \<open>coordinator\<close> and \<open>peer\<close> as the classes extend it. A method is a function on the record that keeps the
  C++ name. Integers are words of the declared width and wrap; the signed counters are \<open>int\<close>, with
  bounds proved. Failures are \<open>option\<close> or sum values, as is the exit of \<open>CHECK\<close>. What is outside the
  repository is an argument: the radio's and the clock's answers (\<open>send_env\<close>, \<open>recv_env\<close>,
  \<open>exchange_env\<close>, \<open>run_env\<close>, \<open>peer_env\<close>), libgpiod and sysfs (\<open>gpio_sys\<close>), the kernel (\<open>kernel\<close>), the
  parsed options (\<open>arguments\<close>). What the code does to the device and the tunnel is recorded in
  \<open>dev_ops\<close> and \<open>tun_out\<close>. Loops that may not end run on \<open>first_some\<close>, whose value \<open>None\<close> means that
  the loop never returns; no fuel is used. Regions under a lock are single steps;
  \<open>Interleaving\<close> lets the tunnel thread run between any two of them and shows that whole passes are
  atomic for it.

  \<^bold>\<open>Theories.\<close>
  \<^item> \<open>Prelude\<close>, \<open>Util\<close>: word types, shared lemmas; \<open>CHECK\<close> (\<open>util/log.h\<close>), \<open>StringFormat\<close>
    (\<open>util/string.cc\<close>).
  \<^item> \<open>Mac_Frame\<close>, \<open>Ip_Packet\<close>: \<open>EncodeMacFrame\<close>, \<open>DecodeMacFrame\<close> and \<open>IsValidIpPacket\<close> of
    \<open>net/radio_interface.cc\<close>; round trip, errors, equivalence with a description of the headers.
  \<^item> \<open>Arq_Link\<close>: the stop-and-wait argument as three locales (\<open>seq_space\<close>, \<open>arq_sender\<close>, \<open>arq\<close>),
    independent of the code. \<open>Link_State\<close> and \<open>Fragment_Link\<close> interpret them on the code's operations.
  \<^item> \<open>Link_State\<close>: the members, sequence numbers, queueing, building, committing and consuming frames,
    the tunnel thread; each operation's effect and the invariant \<open>link_wf\<close>.
  \<^item> \<open>Fragment_Link\<close>, \<open>Channel\<close>: one direction of the link, and which fragments and acknowledgements the
    packets in the air carry.
  \<^item> \<open>Radio_Io\<close>, \<open>Irq\<close>, \<open>Timing\<close>: \<open>Send\<close>, \<open>Receive\<close>, \<open>WaitForRxReady\<close>; the interrupt line, from
    \<open>--irq_pin\<close> to its release; \<open>util/time.cc\<close> and the deadlines and sleeps of the
    program, and that every pass returns on a clock that reaches the deadlines.
  \<^item> \<open>Coordinator\<close>, \<open>Coordinator_Run\<close>: \<open>net/primary_radio_interface.cc\<close>, every method and one pass of
    \<open>Run\<close>; failure counting, disconnect and backoff, use of the radio.
  \<^item> \<open>Peer\<close>: \<open>net/secondary_radio_interface.cc\<close>, likewise; the table of its answers.
  \<^item> \<open>Interleaving\<close>, \<open>Fine_System\<close>: both passes with packets queued wherever the lock is free, which equal
    uninterrupted passes between packets queued before and after; and the system whose steps are such
    passes, where the delivery guarantee still holds.
  \<^item> \<open>Node_Start\<close>: \<open>net/nerfnet_main.cc\<close> and the constructor, up to the call of \<open>Run\<close>.
  \<^item> \<open>Link_System\<close>: both nodes as \<open>main\<close> starts them, their tunnel threads and the channel, as the step
    relation \<open>sys_step\<close>; the invariant \<open>sys_inv\<close> of every reachable state.
  \<^item> \<open>Delivery\<close>, \<open>Session_Run\<close>, \<open>Liveness\<close>, \<open>Recovery\<close>, \<open>Fair_Delivery\<close>: what the system delivers. The
    specification of a direction is a FIFO queue of packets (\<open>fifo_step\<close>), refined by every step in a
    session; lossless exchanges empty the queues, in at most two more exchanges than there are queued
    fragments; every reachable state can get back to such a session; and an infinite execution on a
    lossy channel delivers everything if four exchanges in a row get through again and again. The
    tunnels must be silent for that: while the peer has fragments, the coordinator sends none of its
    own (\<open>peer_is_served_first\<close>), so a peer that always has data starves it.
  \<^item> \<open>System_Safety\<close>, \<open>Air_Types\<close>: what holds in every reachable state, in a session or not: what reaches
    the tunnels, how long the queues get, and the types of the packets in the air.
  \<^item> \<open>Messages\<close>, \<open>Logs\<close>: what the base class and \<open>main\<close> print, and all the lines of a pass of either
    main loop; how many error lines each failure of the base class leaves.

  \<^bold>\<open>The channel.\<close> It keeps the order of packets and does not alter them (the radio checks a CRC); it
  may lose and repeat any of them at any time. A pass of the coordinator is two steps, the request and
  the response, so that the peer and the tunnel threads run in between. A reset succeeds only when the
  packets of an earlier session have left the air: one that outlived the reset could carry a sequence
  number of the new session. RESETs and RESET replies, late or repeated, may be there before and after
  the handshake, in any number, and are received during the session: the peer answers such a RESET
  again, the coordinator refuses such a reply (\<open>session_response_outcome\<close>), and the delivery guarantee
  holds with them. A reset in the middle of a packet keeps the unsent rest of it at the head of the
  queue, so \<open>session_delivers_in_order\<close> counts from the queues as they are when the session begins.

  \<^bold>\<open>Threads.\<close> The tunnel thread has a program point for each place where the other thread can run in
  between: the test of \<open>running_\<close>, the blocking \<open>read\<close>, the wait for a shorter queue. The destructor
  clears \<open>running_\<close> and joins it (\<open>destructor_joins\<close>); a node's \<open>Run\<close> never returns, so in the system
  \<open>running_\<close> stays set.

  \<^bold>\<open>Not modelled.\<close> The command-line parser, the RF24 driver, libgpiod and the kernel, which are not in
  the repository: what they answer is an argument, the texts of \<open>strerror\<close> included;
  \<open>util/macros.h\<close> and \<open>util/non_copyable.h\<close>, which compute nothing; the memory model below the locks
  and the atomic \<open>running_\<close>. The constructor of the base class starts the tunnel thread before the
  derived constructor has run; the thread touches only members of the base class, so the model starts
  it with the node.
\<close>

end
